theory Spec2Isabelle
  imports Main
begin

section \<open>The interpreter's library, as far as the script uses it\<close>

text \<open>
  \<^verbatim>\<open>run_script_service.py\<close> is a Python script. Its own code is embedded function by
  function in the later sections; this section models the library calls it makes:
  \<^verbatim>\<open>str(n)\<close>, \<^verbatim>\<open>int(s)\<close>, \<^verbatim>\<open>s.strip()\<close>, \<^verbatim>\<open>f.readlines()\<close>, slicing,
  \<^verbatim>\<open>json.load\<close> and \<^verbatim>\<open>json.dump\<close>.

  Text is a \<^typ>\<open>string\<close>: a list of characters with codes 0 to 255, read as the code
  points of a Python \<^verbatim>\<open>str\<close>. Python integers are unbounded, hence \<^typ>\<open>int\<close>.
  The interpreter refuses to convert between text and an integer of more than 4300
  digits (the default of \<^verbatim>\<open>sys.get_int_max_str_digits()\<close>); \<^verbatim>\<open>int()\<close> and the
  JSON decoder below have this limit. The limit of the recursion depth is not modelled.
\<close>

subsection \<open>Characters\<close>

definition is_digit :: "char \<Rightarrow> bool" where
  "is_digit c = (48 \<le> (of_char c :: nat) \<and> (of_char c :: nat) \<le> 57)"

definition digit_value :: "char \<Rightarrow> nat" where
  "digit_value c = of_char c - 48"

definition digit_char :: "nat \<Rightarrow> char" where
  "digit_char d = char_of (48 + d)"

text \<open>\<^verbatim>\<open>str.isspace\<close> on the code points below 256.\<close>

definition py_isspace :: "char \<Rightarrow> bool" where
  "py_isspace c =
     (let n = (of_char c :: nat)
      in (9 \<le> n \<and> n \<le> 13) \<or> (28 \<le> n \<and> n \<le> 32) \<or> n = 133 \<or> n = 160)"

text \<open>
  The white space \<^verbatim>\<open>int()\<close> skips: the ASCII white space of the C library, and the
  white space beyond ASCII (which the conversion first turns into blanks). The
  separators 28 to 31 are white space for \<^verbatim>\<open>str.isspace\<close> but not here.
\<close>

definition int_isspace :: "char \<Rightarrow> bool" where
  "int_isspace c =
     (let n = (of_char c :: nat)
      in (9 \<le> n \<and> n \<le> 13) \<or> n = 32 \<or> n = 133 \<or> n = 160)"

text \<open>The most digits an integer may have when it is converted from or to text.\<close>

definition int_max_str_digits :: nat where
  "int_max_str_digits = 4300"

subsection \<open>\<^verbatim>\<open>str.strip()\<close>\<close>

definition py_strip :: "string \<Rightarrow> string" where
  "py_strip s = rev (dropWhile py_isspace (rev (dropWhile py_isspace s)))"

subsection \<open>\<^verbatim>\<open>str(n)\<close> for an integer\<close>

text \<open>
  The decimal numeral of an integer. \<^verbatim>\<open>str(n)\<close> raises \<^verbatim>\<open>ValueError\<close> for an integer
  of more than \<open>int_max_str_digits\<close> digits; the script converts exit codes and
  integers that \<^verbatim>\<open>int()\<close> returned, which are \<open>within_str_digits\<close>
  (\<open>py_int_within_str_digits\<close> below), so the function is given for every integer by
  its digits.
\<close>

fun nat_digits :: "nat \<Rightarrow> string" where
  "nat_digits n =
     (if n < 10 then [digit_char n] else nat_digits (n div 10) @ [digit_char (n mod 10)])"

declare nat_digits.simps [simp del]

definition py_str :: "int \<Rightarrow> string" where
  "py_str i = (if i < 0 then CHR ''-'' # nat_digits (nat (- i)) else nat_digits (nat i))"

definition within_str_digits :: "int \<Rightarrow> bool" where
  "within_str_digits i \<longleftrightarrow> \<bar>i\<bar> < 10 ^ int_max_str_digits"

subsection \<open>\<^verbatim>\<open>int(s)\<close> for a string\<close>

text \<open>
  After the white space at both ends is dropped: an optional sign, then decimal
  digits, where one underscore may stand between two digits. Anything else raises
  \<^verbatim>\<open>ValueError\<close>, which is the result \<open>None\<close>; and so do more than
  \<open>int_max_str_digits\<close> digits, leading zeros counted, underscores not.
\<close>

fun int_literal_ok :: "string \<Rightarrow> bool" where
  "int_literal_ok [] = False"
| "int_literal_ok [c] = is_digit c"
| "int_literal_ok (c # d # cs) =
     (is_digit c \<and> (if d = CHR ''_'' then int_literal_ok cs else int_literal_ok (d # cs)))"

definition digits_value :: "string \<Rightarrow> nat" where
  "digits_value ds = foldl (\<lambda>acc c. 10 * acc + digit_value c) 0 ds"

definition int_strip :: "string \<Rightarrow> string" where
  "int_strip s = rev (dropWhile int_isspace (rev (dropWhile int_isspace s)))"

definition py_int :: "string \<Rightarrow> int option" where
  "py_int s =
     (case int_strip s of
        [] \<Rightarrow> None
      | c # r \<Rightarrow>
          (let negative = (c = CHR ''-'');
               body = (if c = CHR ''-'' \<or> c = CHR ''+'' then r else c # r);
               digits = filter (\<lambda>x. x \<noteq> CHR ''_'') body
           in if int_literal_ok body \<and> length digits \<le> int_max_str_digits
              then Some ((if negative then - 1 else 1) * int (digits_value digits))
              else None))"

subsection \<open>Negative slicing: \<^verbatim>\<open>xs[start:]\<close>\<close>

text \<open>
  A negative start counts from the end and is clamped at the beginning of the list;
  \<^verbatim>\<open>xs[-0:]\<close> is \<^verbatim>\<open>xs[0:]\<close>, the whole list.
\<close>

definition py_slice_from :: "int \<Rightarrow> 'a list \<Rightarrow> 'a list" where
  "py_slice_from start xs =
     (if start < 0 then drop (nat (int (length xs) + start)) xs else drop (nat start) xs)"

subsection \<open>Reading a text file line by line\<close>

text \<open>
  A file opened in text mode is read with universal newlines: \<^verbatim>\<open>\r\n\<close> and a lone
  \<^verbatim>\<open>\r\<close> arrive as \<^verbatim>\<open>\n\<close>. \<^verbatim>\<open>readlines()\<close> cuts the text after every
  \<^verbatim>\<open>\n\<close> and keeps the terminator on its line; a last line without terminator is a
  line too. On writing, POSIX text mode leaves the text as it is.
\<close>

fun universal_newlines :: "string \<Rightarrow> string" where
  "universal_newlines [] = []"
| "universal_newlines [c] = [if c = CHR 0x0D then CHR ''\<newline>'' else c]"
| "universal_newlines (c # d # cs) =
     (if c = CHR 0x0D \<and> d = CHR ''\<newline>'' then CHR ''\<newline>'' # universal_newlines cs
      else if c = CHR 0x0D then CHR ''\<newline>'' # universal_newlines (d # cs)
      else c # universal_newlines (d # cs))"

fun split_lines :: "string \<Rightarrow> string list" where
  "split_lines [] = []"
| "split_lines (c # cs) =
     (if c = CHR ''\<newline>'' then [c] # split_lines cs
      else (case split_lines cs of [] \<Rightarrow> [[c]] | l # ls \<Rightarrow> (c # l) # ls))"

definition readlines :: "string \<Rightarrow> string list" where
  "readlines content = split_lines (universal_newlines content)"

section \<open>Python values and the JSON codec\<close>

text \<open>
  The values \<^verbatim>\<open>json.load\<close> can return. A decoded \<^verbatim>\<open>str\<close> is a list of code
  points, since a \<^verbatim>\<open>\uXXXX\<close> escape reaches beyond the characters of the file. A
  \<^verbatim>\<open>float\<close> is kept as the text of its literal (\<^verbatim>\<open>NaN\<close>, \<^verbatim>\<open>Infinity\<close> and
  \<^verbatim>\<open>-Infinity\<close> included): floating-point arithmetic is not modelled. A \<^verbatim>\<open>dict\<close>
  is the list of its items in insertion order, one item for a key.
\<close>

datatype pyval =
    PyNone
  | PyBool bool
  | PyInt int
  | PyFloat string
  | PyStr "nat list"
  | PyList "pyval list"
  | PyDict "(nat list \<times> pyval) list"

definition py_text :: "string \<Rightarrow> nat list" where
  "py_text s = map of_char s"

text \<open>\<^verbatim>\<open>d[key] = v\<close> and \<^verbatim>\<open>d.get(key, default)\<close> on the items of a dictionary.\<close>

fun dict_set :: "(nat list \<times> pyval) list \<Rightarrow> nat list \<Rightarrow> pyval \<Rightarrow> (nat list \<times> pyval) list" where
  "dict_set [] k v = [(k, v)]"
| "dict_set ((k', v') # items) k v =
     (if k' = k then (k, v) # items else (k', v') # dict_set items k v)"

definition dict_get :: "(nat list \<times> pyval) list \<Rightarrow> nat list \<Rightarrow> pyval \<Rightarrow> pyval" where
  "dict_get items k dflt = (case map_of items k of None \<Rightarrow> dflt | Some v \<Rightarrow> v)"

subsection \<open>The decoder\<close>

text \<open>
  The decoder follows the scanner of the \<^verbatim>\<open>json\<close> module (strict mode, no hooks): it
  works on the rest of the input and returns the value with what follows it. \<open>None\<close>
  stands for the \<^verbatim>\<open>ValueError\<close> the decoder raises: its own \<^verbatim>\<open>JSONDecodeError\<close>, which
  is one, or that of an integer literal with too many digits.
\<close>

definition is_json_ws :: "char \<Rightarrow> bool" where
  "is_json_ws c = (c = CHR '' '' \<or> c = CHR 0x09 \<or> c = CHR ''\<newline>'' \<or> c = CHR 0x0D)"

definition skip_ws :: "string \<Rightarrow> string" where
  "skip_ws s = dropWhile is_json_ws s"

definition hex_value :: "char \<Rightarrow> nat option" where
  "hex_value c =
     (let n = (of_char c :: nat)
      in if 48 \<le> n \<and> n \<le> 57 then Some (n - 48)
         else if 97 \<le> n \<and> n \<le> 102 then Some (n - 87)
         else if 65 \<le> n \<and> n \<le> 70 then Some (n - 55)
         else None)"

definition hex4 :: "char \<Rightarrow> char \<Rightarrow> char \<Rightarrow> char \<Rightarrow> nat option" where
  "hex4 a b c d =
     (case (hex_value a, hex_value b, hex_value c, hex_value d) of
        (Some w, Some x, Some y, Some z) \<Rightarrow> Some (((w * 16 + x) * 16 + y) * 16 + z)
      | _ \<Rightarrow> None)"

definition is_high_surrogate :: "nat \<Rightarrow> bool" where
  "is_high_surrogate u = (55296 \<le> u \<and> u \<le> 56319)"

definition is_low_surrogate :: "nat \<Rightarrow> bool" where
  "is_low_surrogate u = (56320 \<le> u \<and> u \<le> 57343)"

definition join_surrogates :: "nat \<Rightarrow> nat \<Rightarrow> nat" where
  "join_surrogates hi lo = 65536 + (hi - 55296) * 1024 + (lo - 56320)"

definition simple_escape :: "char \<Rightarrow> nat option" where
  "simple_escape e =
     (if e = CHR 0x22 then Some 34
      else if e = CHR 0x5C then Some 92
      else if e = CHR ''/'' then Some 47
      else if e = CHR ''b'' then Some 8
      else if e = CHR ''f'' then Some 12
      else if e = CHR ''n'' then Some 10
      else if e = CHR ''r'' then Some 13
      else if e = CHR ''t'' then Some 9
      else None)"

text \<open>
  An escape, read behind its backslash: the code point it stands for and the number of
  characters it takes. \<^verbatim>\<open>\uXXXX\<close> wants four hexadecimal digits. When it gives a
  high surrogate and at least seven more characters follow, the first two of them
  \<^verbatim>\<open>\u\<close>, the next four are read as a second escape: a low surrogate joins the
  first to one code point, another value is left for the next round.
\<close>

definition unicode_escape :: "string \<Rightarrow> nat option" where
  "unicode_escape s = (case s of a # b # c # d # _ \<Rightarrow> hex4 a b c d | _ \<Rightarrow> None)"

definition decode_escape :: "string \<Rightarrow> (nat \<times> nat) option" where
  "decode_escape s =
     (case s of
        [] \<Rightarrow> None
      | e # r \<Rightarrow>
          if e = CHR ''u'' then
            (case unicode_escape r of
               None \<Rightarrow> None
             | Some u \<Rightarrow>
                 if is_high_surrogate u \<and> 10 < length r
                    \<and> take 2 (drop 4 r) = [CHR 0x5C, CHR ''u'']
                 then
                   (case unicode_escape (drop 6 r) of
                      None \<Rightarrow> None
                    | Some u2 \<Rightarrow>
                        if is_low_surrogate u2 then Some (join_surrogates u u2, 11)
                        else Some (u, 5))
                 else Some (u, 5))
          else
            (case simple_escape e of
               None \<Rightarrow> None
             | Some x \<Rightarrow> Some (x, 1)))"

text \<open>
  \<^verbatim>\<open>scanstring\<close>, called behind the opening quote: the decoded string and the input
  behind the closing quote. A control character, a malformed escape and a missing
  closing quote are errors.
\<close>

fun scanstring :: "nat list \<Rightarrow> string \<Rightarrow> (nat list \<times> string) option" where
  "scanstring acc [] = None"
| "scanstring acc (c # cs) =
     (if c = CHR 0x22 then Some (acc, cs)
      else if c = CHR 0x5C then
        (case decode_escape cs of
           None \<Rightarrow> None
         | Some (x, n) \<Rightarrow> scanstring (acc @ [x]) (drop n cs))
      else if (of_char c :: nat) \<le> 31 then None
      else scanstring (acc @ [of_char c]) cs)"

text \<open>
  A number: an optional minus sign, then \<^verbatim>\<open>0\<close> or a digit from 1 to 9 with more
  digits; a fraction if a dot and a digit follow; an exponent if \<^verbatim>\<open>e\<close> or
  \<^verbatim>\<open>E\<close>, an optional sign and at least one digit follow. Without fraction and
  exponent the literal is an \<^verbatim>\<open>int\<close>, which must not have more than
  \<open>int_max_str_digits\<close> digits, otherwise a \<^verbatim>\<open>float\<close>.
\<close>

definition match_fraction :: "string \<Rightarrow> string \<times> string" where
  "match_fraction s =
     (case s of
        p # d # r \<Rightarrow>
          if p = CHR ''.'' \<and> is_digit d
          then (p # d # takeWhile is_digit r, dropWhile is_digit r)
          else ([], s)
      | _ \<Rightarrow> ([], s))"

definition match_exponent :: "string \<Rightarrow> string \<times> string" where
  "match_exponent s =
     (case s of
        e # x # r \<Rightarrow>
          if e = CHR ''e'' \<or> e = CHR ''E'' then
            (let signed = ((x = CHR ''-'' \<or> x = CHR ''+'') \<and> r \<noteq> []);
                 ds = takeWhile is_digit (if signed then r else x # r)
             in if ds = [] then ([], s)
                else if signed then (e # x # ds, dropWhile is_digit r)
                else (e # ds, dropWhile is_digit (x # r)))
          else ([], s)
      | _ \<Rightarrow> ([], s))"

definition match_number :: "string \<Rightarrow> (pyval \<times> string) option" where
  "match_number s =
     (let negative = (s \<noteq> [] \<and> hd s = CHR ''-'');
          t = (if negative then tl s else s)
      in case t of
           [] \<Rightarrow> None
         | c # r \<Rightarrow>
             if is_digit c then
               (let ds = (if c = CHR ''0'' then [c] else c # takeWhile is_digit r);
                    r1 = (if c = CHR ''0'' then r else dropWhile is_digit r);
                    (frac, r2) = match_fraction r1;
                    (ex, r3) = match_exponent r2
                in if frac = [] \<and> ex = []
                   then (if length ds \<le> int_max_str_digits
                         then Some (PyInt ((if negative then - 1 else 1) * int (digits_value ds)),
                                    r3)
                         else None)
                   else Some (PyFloat ((if negative then ''-'' else []) @ ds @ frac @ ex), r3))
             else None)"

text \<open>The named constants; the three that are not JSON are what the module accepts.\<close>

definition strip_prefix :: "string \<Rightarrow> string \<Rightarrow> string option" where
  "strip_prefix p s = (if take (length p) s = p then Some (drop (length p) s) else None)"

definition match_constant :: "string \<Rightarrow> (pyval \<times> string) option" where
  "match_constant s =
     (case strip_prefix ''null'' s of Some r \<Rightarrow> Some (PyNone, r) | None \<Rightarrow>
     (case strip_prefix ''true'' s of Some r \<Rightarrow> Some (PyBool True, r) | None \<Rightarrow>
     (case strip_prefix ''false'' s of Some r \<Rightarrow> Some (PyBool False, r) | None \<Rightarrow>
     (case strip_prefix ''NaN'' s of Some r \<Rightarrow> Some (PyFloat ''NaN'', r) | None \<Rightarrow>
     (case strip_prefix ''Infinity'' s of Some r \<Rightarrow> Some (PyFloat ''Infinity'', r) | None \<Rightarrow>
     (case strip_prefix ''-Infinity'' s of Some r \<Rightarrow> Some (PyFloat ''-Infinity'', r)
      | None \<Rightarrow> None))))))"

text \<open>
  \<^verbatim>\<open>scan_once\<close> reads one value. \<^verbatim>\<open>parse_array\<close> and \<^verbatim>\<open>parse_object\<close> are the
  loops behind \<^verbatim>\<open>[\<close> and \<^verbatim>\<open>{\<close> for a container that is not empty; their first
  argument holds the items read so far. The loops go on behind a comma only when the
  item before it has used up input, which it always has (\<open>scan_once_shorter\<close>
  below): the test is there for the termination proof and never fails.
\<close>

function scan_once :: "string \<Rightarrow> (pyval \<times> string) option"
  and parse_array :: "pyval list \<Rightarrow> string \<Rightarrow> (pyval \<times> string) option"
  and parse_object :: "(nat list \<times> pyval) list \<Rightarrow> string \<Rightarrow> (pyval \<times> string) option"
where
  "scan_once [] = None"
| "scan_once (c # cs) =
     (if c = CHR 0x22 then
        (case scanstring [] cs of None \<Rightarrow> None | Some (str, r) \<Rightarrow> Some (PyStr str, r))
      else if c = CHR ''{'' then
        (case skip_ws cs of
           [] \<Rightarrow> None
         | d # r \<Rightarrow> if d = CHR ''}'' then Some (PyDict [], r) else parse_object [] (d # r))
      else if c = CHR ''['' then
        (case skip_ws cs of
           [] \<Rightarrow> None
         | d # r \<Rightarrow> if d = CHR '']'' then Some (PyList [], r) else parse_array [] (d # r))
      else
        (case match_constant (c # cs) of
           Some (v, r) \<Rightarrow> Some (v, r)
         | None \<Rightarrow> match_number (c # cs)))"
| "parse_array acc s =
     (case scan_once s of
        None \<Rightarrow> None
      | Some (v, r) \<Rightarrow>
          (case skip_ws r of
             [] \<Rightarrow> None
           | d # r' \<Rightarrow>
               if d = CHR '']'' then Some (PyList (acc @ [v]), r')
               else if d = CHR '','' \<and> length r' < length s
               then parse_array (acc @ [v]) (skip_ws r')
               else None))"
| "parse_object acc s =
     (case s of
        [] \<Rightarrow> None
      | q # s1 \<Rightarrow>
          if q = CHR 0x22 then
            (case scanstring [] s1 of
               None \<Rightarrow> None
             | Some (k, s2) \<Rightarrow>
                 (case skip_ws s2 of
                    [] \<Rightarrow> None
                  | colon # s3 \<Rightarrow>
                      if colon = CHR '':'' then
                        (case scan_once (skip_ws s3) of
                           None \<Rightarrow> None
                         | Some (v, r) \<Rightarrow>
                             (case skip_ws r of
                                [] \<Rightarrow> None
                              | d # r' \<Rightarrow>
                                  if d = CHR ''}'' then Some (PyDict (dict_set acc k v), r')
                                  else if d = CHR '','' \<and> length r' < length s
                                  then parse_object (dict_set acc k v) (skip_ws r')
                                  else None))
                      else None))
          else None)"
  by pat_completeness auto

lemma skip_ws_length: "length (skip_ws s) \<le> length s"
  by (simp add: skip_ws_def length_dropWhile_le)

lemma skip_ws_Cons_length: "skip_ws s = d # r \<Longrightarrow> length r < length s"
  using skip_ws_length [of s] by simp

lemma scanstring_shorter: "scanstring acc s = Some (k, r) \<Longrightarrow> length r < length s"
proof (induction acc s rule: scanstring.induct)
  case (1 acc)
  then show ?case by simp
next
  case (2 acc c cs)
  show ?case
  proof (cases "c = CHR 0x22")
    case True
    with "2.prems" show ?thesis by simp
  next
    case quote: False
    show ?thesis
    proof (cases "c = CHR 0x5C")
      case True
      with quote "2.prems" obtain x n where d: "decode_escape cs = Some (x, n)"
        and s: "scanstring (acc @ [x]) (drop n cs) = Some (k, r)"
        by (auto split: option.splits)
      from "2.IH"(1) [OF quote True d refl s] show ?thesis by simp
    next
      case False
      with quote "2.prems" have c: "\<not> (of_char c :: nat) \<le> 31"
        and s: "scanstring (acc @ [of_char c]) cs = Some (k, r)"
        by (auto split: if_splits)
      from "2.IH"(2) [OF quote False c s] show ?thesis by simp
    qed
  qed
qed

termination scan_once
proof (relation "measure (\<lambda>x. case x of Inl s \<Rightarrow> 2 * length s
                                 | Inr (Inl (_, s)) \<Rightarrow> 2 * length s + 1
                                 | Inr (Inr (_, s)) \<Rightarrow> 2 * length s + 1)", goal_cases)
  case 1
  show ?case by simp
next
  case (2 c cs d r)
  then show ?case using skip_ws_Cons_length [of cs d r] by simp
next
  case (3 c cs d r)
  then show ?case using skip_ws_Cons_length [of cs d r] by simp
next
  case (4 acc s)
  show ?case by simp
next
  case (5 acc s x2 v r d r')
  then show ?case using skip_ws_length [of r'] by simp
next
  case (6 acc s q s1 x2 k s2 colon s3)
  then show ?case
    using scanstring_shorter [of "[]" s1 k s2] skip_ws_Cons_length [of s2 colon s3]
      skip_ws_length [of s3]
    by simp
next
  case (7 acc s q s1 x2 k s2 colon s3 x2a v r d r')
  then show ?case using skip_ws_length [of r'] by simp
qed

text \<open>
  \<^verbatim>\<open>json.loads\<close>: white space, one value, white space, and nothing behind it.
\<close>

definition json_loads :: "string \<Rightarrow> pyval option" where
  "json_loads s =
     (case scan_once (skip_ws s) of
        None \<Rightarrow> None
      | Some (v, r) \<Rightarrow> if skip_ws r = [] then Some v else None)"

subsection \<open>The encoder\<close>

text \<open>
  \<^verbatim>\<open>json.dumps(v, indent=2)\<close> with the module's defaults: strings are written in
  ASCII, items are separated by a comma and a new line, and every level of nesting
  indents by two blanks. A \<^verbatim>\<open>float\<close> is written with the text the model keeps for
  it, not with its \<^verbatim>\<open>repr\<close>; the script never encodes one.
\<close>

definition hex_digit :: "nat \<Rightarrow> char" where
  "hex_digit d = (if d < 10 then char_of (48 + d) else char_of (87 + d))"

definition u_escape :: "nat \<Rightarrow> string" where
  "u_escape n =
     [CHR 0x5C, CHR ''u'', hex_digit (n div 4096 mod 16), hex_digit (n div 256 mod 16),
      hex_digit (n div 16 mod 16), hex_digit (n mod 16)]"

definition encode_char :: "nat \<Rightarrow> string" where
  "encode_char n =
     (if n = 34 then [CHR 0x5C, CHR 0x22]
      else if n = 92 then [CHR 0x5C, CHR 0x5C]
      else if n = 8 then [CHR 0x5C, CHR ''b'']
      else if n = 12 then [CHR 0x5C, CHR ''f'']
      else if n = 10 then [CHR 0x5C, CHR ''n'']
      else if n = 13 then [CHR 0x5C, CHR ''r'']
      else if n = 9 then [CHR 0x5C, CHR ''t'']
      else if 32 \<le> n \<and> n \<le> 126 then [char_of n]
      else if n < 65536 then u_escape n
      else u_escape (55296 + (n - 65536) div 1024) @ u_escape (56320 + (n - 65536) mod 1024))"

definition encode_basestring_ascii :: "nat list \<Rightarrow> string" where
  "encode_basestring_ascii s = [CHR 0x22] @ concat (map encode_char s) @ [CHR 0x22]"

definition newline_indent :: "nat \<Rightarrow> string" where
  "newline_indent level = CHR ''\<newline>'' # replicate (2 * level) CHR '' ''"

fun join_items :: "string \<Rightarrow> string list \<Rightarrow> string" where
  "join_items sep [] = []"
| "join_items sep [x] = x"
| "join_items sep (x # y # ys) = x @ sep @ join_items sep (y # ys)"

fun iterencode :: "nat \<Rightarrow> pyval \<Rightarrow> string" where
  "iterencode level PyNone = ''null''"
| "iterencode level (PyBool b) = (if b then ''true'' else ''false'')"
| "iterencode level (PyInt i) = py_str i"
| "iterencode level (PyFloat t) = t"
| "iterencode level (PyStr s) = encode_basestring_ascii s"
| "iterencode level (PyList xs) =
     (if xs = [] then ''[]''
      else ''['' @ newline_indent (Suc level)
           @ join_items ('','' @ newline_indent (Suc level)) (map (iterencode (Suc level)) xs)
           @ newline_indent level @ '']'')"
| "iterencode level (PyDict items) =
     (if items = [] then ''{}''
      else ''{'' @ newline_indent (Suc level)
           @ join_items ('','' @ newline_indent (Suc level))
               (map (\<lambda>(k, v). encode_basestring_ascii k @ '': '' @ iterencode (Suc level) v)
                  items)
           @ newline_indent level @ ''}'')"

definition json_dumps_indent2 :: "pyval \<Rightarrow> string" where
  "json_dumps_indent2 v = iterencode 0 v"

section \<open>The world the script runs in\<close>

text \<open>
  The script touches two files beside itself: \<^verbatim>\<open>service_config.json\<close> and
  \<^verbatim>\<open>run.log\<close>. A file is absent (\<open>None\<close>) or has a content. Opening, reading and
  writing these files always succeed in this model, so the handlers for errors of the
  file system in \<^verbatim>\<open>save_config\<close> and \<^verbatim>\<open>trim_log\<close> have no counterpart here.
  \<open>opened_for_writing\<close> records every \<^verbatim>\<open>open\<close> in mode \<^verbatim>\<open>'w'\<close> or \<^verbatim>\<open>'a'\<close>,
  in order, so that "no write" is more than "the same content".

  What the script prints is recorded call by call: each \<^verbatim>\<open>print\<close> of the source is
  one constructor with the values its f-string formats.
\<close>

datatype path = Config_path | Log_path

datatype exn = ValueError | AttributeError | TypeError

datatype printed =
    Error_loading_config exn
  | Interval_set pyval
  | Script_executed string int
  | Error_executing_script string
  | Service_started pyval
  | Service_stopping
  | Received_signal int
  | Usage_set_interval
  | Invalid_interval_value
  | Unknown_command

record world =
  config_file :: "string option"
  log_file :: "string option"
  opened_for_writing :: "path list"
  console :: "printed list"

definition print :: "printed \<Rightarrow> world \<Rightarrow> world" where
  "print line w = w\<lparr>console := console w @ [line]\<rparr>"

text \<open>\<^verbatim>\<open>with open(log_path, 'a') as f: f.write(entry)\<close>; the mode creates a missing file.\<close>

definition append_log :: "string \<Rightarrow> world \<Rightarrow> world" where
  "append_log entry w =
     w\<lparr>log_file := Some ((case log_file w of None \<Rightarrow> [] | Some old \<Rightarrow> old) @ entry),
       opened_for_writing := opened_for_writing w @ [Log_path]\<rparr>"

section \<open>The class \<^verbatim>\<open>RunScriptService\<close>\<close>

text \<open>
  The fields of the object that change or are read as values. The three paths are fixed
  at construction and stand for the files of the world. \<open>interval\<close> holds whatever
  \<^verbatim>\<open>config.get\<close> returned, so its type is the type of all decoded values.
\<close>

record service =
  running :: bool
  interval :: pyval
  max_log_lines :: int

definition interval_key :: "nat list" where
  "interval_key = py_text ''interval''"

text \<open>
  \<^verbatim>\<open>load_config\<close>: nothing happens without the file. \<^verbatim>\<open>json.load\<close> may raise, and
  so may \<^verbatim>\<open>config.get\<close> when the document is not an object; the handler prints and
  leaves the interval as it was.
\<close>

definition load_config :: "service \<Rightarrow> world \<Rightarrow> service \<times> world" where
  "load_config self w =
     (case config_file w of
        None \<Rightarrow> (self, w)
      | Some content \<Rightarrow>
          (case json_loads (universal_newlines content) of
             None \<Rightarrow> (self, print (Error_loading_config ValueError) w)
           | Some config \<Rightarrow>
               (case config of
                  PyDict items \<Rightarrow>
                    (self\<lparr>interval := dict_get items interval_key (PyInt 3600)\<rparr>, w)
                | _ \<Rightarrow> (self, print (Error_loading_config AttributeError) w))))"

text \<open>\<^verbatim>\<open>__init__\<close>: the defaults, then \<^verbatim>\<open>load_config\<close>.\<close>

definition RunScriptService :: "world \<Rightarrow> service \<times> world" where
  "RunScriptService w =
     load_config \<lparr>running = False, interval = PyInt 3600, max_log_lines = 100\<rparr> w"

text \<open>
  \<^verbatim>\<open>save_config\<close>. Of what \<^verbatim>\<open>json.dump\<close> can raise, only the limit on the digits
  of an integer is within this model, and \<^verbatim>\<open>main\<close> calls \<^verbatim>\<open>set_interval\<close> with an
  integer that \<^verbatim>\<open>int()\<close> returned, which is within the limit: the handler of
  \<^verbatim>\<open>save_config\<close> has no counterpart here.
\<close>

definition save_config :: "service \<Rightarrow> world \<Rightarrow> world" where
  "save_config self w =
     w\<lparr>config_file := Some (json_dumps_indent2 (PyDict [(interval_key, interval self)])),
       opened_for_writing := opened_for_writing w @ [Config_path]\<rparr>"

definition set_interval :: "service \<Rightarrow> pyval \<Rightarrow> world \<Rightarrow> service \<times> world" where
  "set_interval self new_interval w =
     (let self' = self\<lparr>interval := new_interval\<rparr>;
          w' = save_config self' w
      in (self', print (Interval_set new_interval) w'))"

text \<open>
  \<^verbatim>\<open>trim_log\<close>: returns at once without the file; otherwise reads the lines and, only
  when there are more than \<open>max_log_lines\<close>, writes back \<^verbatim>\<open>lines[-max_log_lines:]\<close>.
\<close>

definition trim_log :: "service \<Rightarrow> world \<Rightarrow> world" where
  "trim_log self w =
     (case log_file w of
        None \<Rightarrow> w
      | Some content \<Rightarrow>
          (let lines = readlines content
           in if int (length lines) > max_log_lines self
              then w\<lparr>log_file := Some (concat (py_slice_from (- max_log_lines self) lines)),
                     opened_for_writing := opened_for_writing w @ [Log_path]\<rparr>
              else w))"

text \<open>
  What one call of \<^verbatim>\<open>execute_script\<close> gets from outside: the clock when the
  \<^verbatim>\<open>try\<close> block starts, the clock when the handler runs (both already formatted by
  \<^verbatim>\<open>strftime\<close>), and what \<^verbatim>\<open>subprocess.run\<close> did: it returned a completed process
  with exit code, standard output and standard error, or it raised an exception, given
  by its \<^verbatim>\<open>str(e)\<close>.
\<close>

datatype run_result = Completed int string string | Raised string

record execution =
  now_in_try :: string
  now_in_handler :: string
  subprocess_run :: run_result

definition separator :: string where
  "separator = replicate 50 CHR ''-'' @ ''\<newline>''"

definition execute_script :: "service \<Rightarrow> execution \<Rightarrow> world \<Rightarrow> world" where
  "execute_script self x w =
     (case subprocess_run x of
        Completed returncode out err \<Rightarrow>
          (let log_entry = ''['' @ now_in_try x @ ''] Exit code: '' @ py_str returncode @ ''\<newline>'';
               log_entry = (if out \<noteq> [] then log_entry @ ''STDOUT: '' @ py_strip out @ ''\<newline>''
                            else log_entry);
               log_entry = (if err \<noteq> [] then log_entry @ ''STDERR: '' @ py_strip err @ ''\<newline>''
                            else log_entry);
               log_entry = log_entry @ separator;
               w = append_log log_entry w;
               w = trim_log self w
           in print (Script_executed (now_in_try x) returncode) w)
      | Raised e \<Rightarrow>
          (let error_msg = ''['' @ now_in_handler x @ ''] ERROR: '' @ e @ ''\<newline>'' @ separator;
               w = append_log error_msg w
           in print (Error_executing_script e) w))"

section \<open>The service loop and \<^verbatim>\<open>main\<close>\<close>

text \<open>
  \<^verbatim>\<open>run\<close> loops until the flag \<open>running\<close> is false, and a signal may arrive at any
  moment, so the loop is a machine that takes one step per event. The control points
  are the tests of the two \<^verbatim>\<open>while\<close> loops, the call of \<^verbatim>\<open>execute_script\<close> (one
  step, together with \<^verbatim>\<open>elapsed = 0\<close>), \<^verbatim>\<open>time.sleep(1)\<close> and \<^verbatim>\<open>elapsed += 1\<close>.
  \<open>Returned\<close> is \<^verbatim>\<open>run\<close> coming back to \<^verbatim>\<open>main\<close>, \<open>Exited\<close> is \<^verbatim>\<open>sys.exit\<close>, and
  \<open>Uncaught\<close> is an exception that no handler of the script catches. \<open>sleeps\<close>
  counts the calls of \<^verbatim>\<open>time.sleep(1)\<close>; the script has no such variable.
\<close>

datatype control = Outer_test | Execute | Inner_test | Sleep | Increment
  | Returned | Exited int | Uncaught exn

record machine =
  svc :: service
  env :: world
  elapsed :: int
  sleeps :: nat
  control :: control

definition halted :: "control \<Rightarrow> bool" where
  "halted c = (case c of Returned \<Rightarrow> True | Exited _ \<Rightarrow> True | Uncaught _ \<Rightarrow> True | _ \<Rightarrow> False)"

text \<open>
  \<^verbatim>\<open>elapsed < self.interval\<close> for an integer on the left. \<^verbatim>\<open>True\<close> and \<^verbatim>\<open>False\<close>
  compare as 1 and 0; \<^verbatim>\<open>None\<close>, a string, a list and a dictionary raise
  \<^verbatim>\<open>TypeError\<close>. The comparison with a float is a parameter, \<open>less_float\<close>: the
  integer and the literal of the float.
\<close>

definition int_less :: "(int \<Rightarrow> string \<Rightarrow> bool) \<Rightarrow> int \<Rightarrow> pyval \<Rightarrow> exn + bool" where
  "int_less less_float a v =
     (case v of
        PyInt b \<Rightarrow> Inr (a < b)
      | PyBool b \<Rightarrow> Inr (a < (if b then 1 else 0))
      | PyFloat t \<Rightarrow> Inr (less_float a t)
      | _ \<Rightarrow> Inl TypeError)"

text \<open>
  \<^verbatim>\<open>signal_handler\<close>, installed by \<^verbatim>\<open>__init__\<close> for SIGTERM and SIGINT: it prints,
  calls \<^verbatim>\<open>stop\<close> (which clears the flag and prints) and then \<^verbatim>\<open>sys.exit(0)\<close>. The
  \<^verbatim>\<open>SystemExit\<close> this raises is not an \<^verbatim>\<open>Exception\<close>, so the handler in
  \<^verbatim>\<open>execute_script\<close> does not catch it.
\<close>

definition stop :: "machine \<Rightarrow> machine" where
  "stop m = m\<lparr>svc := (svc m)\<lparr>running := False\<rparr>, env := print Service_stopping (env m)\<rparr>"

definition signal_handler :: "int \<Rightarrow> machine \<Rightarrow> machine" where
  "signal_handler signum m =
     (stop (m\<lparr>env := print (Received_signal signum) (env m)\<rparr>))\<lparr>control := Exited 0\<rparr>"

datatype event = Proceed execution | Signal int

definition step :: "(int \<Rightarrow> string \<Rightarrow> bool) \<Rightarrow> event \<Rightarrow> machine \<Rightarrow> machine" where
  "step less_float ev m =
     (if halted (control m) then m
      else case ev of
        Signal signum \<Rightarrow> signal_handler signum m
      | Proceed x \<Rightarrow>
          (case control m of
             Outer_test \<Rightarrow>
               if running (svc m) then m\<lparr>control := Execute\<rparr> else m\<lparr>control := Returned\<rparr>
           | Execute \<Rightarrow>
               m\<lparr>env := execute_script (svc m) x (env m), elapsed := 0, control := Inner_test\<rparr>
           | Inner_test \<Rightarrow>
               (case int_less less_float (elapsed m) (interval (svc m)) of
                  Inl e \<Rightarrow> m\<lparr>control := Uncaught e\<rparr>
                | Inr b \<Rightarrow>
                    if b \<and> running (svc m) then m\<lparr>control := Sleep\<rparr>
                    else m\<lparr>control := Outer_test\<rparr>)
           | Sleep \<Rightarrow> m\<lparr>sleeps := Suc (sleeps m), control := Increment\<rparr>
           | Increment \<Rightarrow> m\<lparr>elapsed := elapsed m + 1, control := Inner_test\<rparr>
           | _ \<Rightarrow> m))"

fun run_events :: "(int \<Rightarrow> string \<Rightarrow> bool) \<Rightarrow> event list \<Rightarrow> machine \<Rightarrow> machine" where
  "run_events less_float [] m = m"
| "run_events less_float (ev # evs) m = run_events less_float evs (step less_float ev m)"

text \<open>\<^verbatim>\<open>run\<close> up to its loop: the flag is set and the start is announced.\<close>

definition run :: "service \<Rightarrow> world \<Rightarrow> machine" where
  "run self w =
     \<lparr>svc = self\<lparr>running := True\<rparr>, env = print (Service_started (interval self)) w,
      elapsed = 0, sleeps = 0, control = Outer_test\<rparr>"

text \<open>
  \<^verbatim>\<open>main\<close> with \<^verbatim>\<open>sys.argv\<close> as its argument. It ends in one of two ways: the process
  exits with a status, or the service loop is entered. Coming back from
  \<^verbatim>\<open>set_interval\<close>, \<^verbatim>\<open>main\<close> returns and the interpreter exits with status 0.
\<close>

datatype process = Exit int world | Service_loop machine

definition main :: "string list \<Rightarrow> world \<Rightarrow> process" where
  "main argv w0 =
     (let (service, w) = RunScriptService w0
      in if length argv > 1 then
           (let command = argv ! 1
            in if command = ''set-interval'' then
                 (if length argv \<noteq> 3 then Exit 1 (print Usage_set_interval w)
                  else
                    (case py_int (argv ! 2) of
                       Some new_interval \<Rightarrow>
                         Exit 0 (snd (set_interval service (PyInt new_interval) w))
                     | None \<Rightarrow> Exit 1 (print Invalid_interval_value w)))
               else if command = ''run'' then Service_loop (run service w)
               else Exit 1 (print Unknown_command w))
         else Service_loop (run service w))"

section \<open>Notions used in the statements\<close>

text \<open>
  A line as \<^verbatim>\<open>readlines\<close> returns it: not empty, no carriage return, and a new line
  at most as its last character. In a list of lines every line but the last ends with
  a new line.
\<close>

definition is_line :: "string \<Rightarrow> bool" where
  "is_line l \<longleftrightarrow> l \<noteq> [] \<and> CHR 0x0D \<notin> set l \<and> CHR ''\<newline>'' \<notin> set (butlast l)"

fun lines_ok :: "string list \<Rightarrow> bool" where
  "lines_ok [] = True"
| "lines_ok [l] = is_line l"
| "lines_ok (l # l' # ls) = (is_line l \<and> last l = CHR ''\<newline>'' \<and> lines_ok (l' # ls))"

text \<open>
  The interval field of the persisted configuration, read as \<^verbatim>\<open>load_config\<close> reads
  the file; \<open>None\<close> without a file, a document or the key.
\<close>

definition stored_interval :: "world \<Rightarrow> pyval option" where
  "stored_interval w =
     (case config_file w of
        None \<Rightarrow> None
      | Some content \<Rightarrow>
          (case json_loads (universal_newlines content) of
             Some (PyDict items) \<Rightarrow> map_of items interval_key
           | _ \<Rightarrow> None))"

definition positive_integer :: "pyval \<Rightarrow> bool" where
  "positive_integer v = (case v of PyInt n \<Rightarrow> 0 < n | _ \<Rightarrow> False)"

definition empty_world :: world where
  "empty_world = \<lparr>config_file = None, log_file = None, opened_for_writing = [], console = []\<rparr>"

text \<open>Two logs for the examples: one hundred lines, and one line more.\<close>

definition hundred_lines :: string where
  "hundred_lines = concat (replicate 100 ''x\<newline>'')"

definition long_log :: string where
  "long_log = ''old\<newline>'' @ hundred_lines"

text \<open>
  The invalid invocations, in the words of the command-line surface: \<^verbatim>\<open>set-interval\<close>
  without its argument, with more than one, or with one that \<^verbatim>\<open>int()\<close> rejects, and
  a first argument that is neither \<^verbatim>\<open>set-interval\<close> nor \<^verbatim>\<open>run\<close>; and the message
  each of them is answered with.
\<close>

definition invalid_invocation :: "string list \<Rightarrow> bool" where
  "invalid_invocation argv \<longleftrightarrow>
     1 < length argv \<and>
     (if argv ! 1 = ''set-interval'' then length argv \<noteq> 3 \<or> py_int (argv ! 2) = None
      else argv ! 1 \<noteq> ''run'')"

definition complaint :: "string list \<Rightarrow> printed" where
  "complaint argv =
     (if argv ! 1 \<noteq> ''set-interval'' then Unknown_command
      else if length argv \<noteq> 3 then Usage_set_interval
      else Invalid_interval_value)"

text \<open>
  The log entry of a completed run as the log format describes it, line by line: the
  time stamp with the exit code, the standard output and the standard error each only
  when not empty, and fifty dashes.
\<close>

definition entry_lines :: "string \<Rightarrow> int \<Rightarrow> string \<Rightarrow> string \<Rightarrow> string list" where
  "entry_lines timestamp returncode out err =
     [''['' @ timestamp @ ''] Exit code: '' @ py_str returncode @ ''\<newline>'']
     @ (if out \<noteq> [] then [''STDOUT: '' @ py_strip out @ ''\<newline>''] else [])
     @ (if err \<noteq> [] then [''STDERR: '' @ py_strip err @ ''\<newline>''] else [])
     @ [replicate 50 CHR ''-'' @ ''\<newline>'']"

text \<open>
  The control points of the wait between two cycles.
\<close>

definition waiting :: "control \<Rightarrow> bool" where
  "waiting c \<longleftrightarrow> c = Inner_test \<or> c = Sleep \<or> c = Increment"

text \<open>Executions and a machine for the examples.\<close>

definition launch_failed :: execution where
  "launch_failed =
     \<lparr>now_in_try = ''2024-01-01 00:00:00'', now_in_handler = ''2024-01-01 00:00:01'',
      subprocess_run = Raised ''[Errno 2] No such file or directory''\<rparr>"

definition said_hello :: execution where
  "said_hello =
     \<lparr>now_in_try = ''2024-01-01 00:00:00'', now_in_handler = ''2024-01-01 00:00:01'',
      subprocess_run = Completed 0 ''hello\<newline>'' []\<rparr>"

definition waiting_machine :: machine where
  "waiting_machine =
     \<lparr>svc = \<lparr>running = True, interval = PyInt 3600, max_log_lines = 100\<rparr>,
      env = empty_world, elapsed = 7, sleeps = 7, control = Sleep\<rparr>"

text \<open>The world after \<^verbatim>\<open>set-interval -5\<close> from an empty one.\<close>

definition minus_five_saved :: world where
  "minus_five_saved =
     \<lparr>config_file = Some (''{\<newline>  '' @ [CHR 0x22] @ ''interval'' @ [CHR 0x22] @ '': -5\<newline>}''),
      log_file = None, opened_for_writing = [Config_path],
      console = [Interval_set (PyInt (- 5))]\<rparr>"

section \<open>Facts about the library model\<close>

lemma universal_newlines_no_CR: "CHR 0x0D \<notin> set (universal_newlines s)"
  by (induction s rule: universal_newlines.induct) auto

lemma universal_newlines_id: "CHR 0x0D \<notin> set s \<Longrightarrow> universal_newlines s = s"
  by (induction s rule: universal_newlines.induct) auto

lemma split_lines_Nil_iff: "split_lines s = [] \<longleftrightarrow> s = []"
  by (cases s) (auto split: list.splits)

lemma lines_ok_Cons:
  "lines_ok (l # ls) \<longleftrightarrow> is_line l \<and> (ls \<noteq> [] \<longrightarrow> last l = CHR ''\<newline>'') \<and> lines_ok ls"
  by (cases ls) auto

lemma lines_ok_split_lines: "CHR 0x0D \<notin> set s \<Longrightarrow> lines_ok (split_lines s)"
proof (induction s rule: split_lines.induct)
  case 1
  show ?case by simp
next
  case (2 c cs)
  show ?case
  proof (cases "c = CHR ''\<newline>''")
    case True
    with 2 show ?thesis by (simp add: lines_ok_Cons is_line_def)
  next
    case False
    with 2 have IH: "lines_ok (split_lines cs)" and c: "c \<noteq> CHR 0x0D" by auto
    show ?thesis
    proof (cases "split_lines cs")
      case Nil
      with False c show ?thesis by (simp add: is_line_def)
    next
      case (Cons l ls)
      with IH have "is_line l" and "ls \<noteq> [] \<longrightarrow> last l = CHR ''\<newline>''" and "lines_ok ls"
        by (simp_all add: lines_ok_Cons)
      with False c Cons show ?thesis
        by (simp add: lines_ok_Cons is_line_def)
    qed
  qed
qed

lemma lines_ok_readlines: "lines_ok (readlines content)"
  by (simp add: readlines_def lines_ok_split_lines universal_newlines_no_CR)

lemma lines_ok_drop: "lines_ok ls \<Longrightarrow> lines_ok (drop k ls)"
proof (induction k arbitrary: ls)
  case 0
  then show ?case by simp
next
  case (Suc k)
  then show ?case by (cases ls) (auto simp: lines_ok_Cons)
qed

lemma split_lines_no_newline:
  "CHR ''\<newline>'' \<notin> set b \<Longrightarrow> split_lines (b @ CHR ''\<newline>'' # rest) = (b @ ''\<newline>'') # split_lines rest"
  by (induction b) auto

lemma split_lines_last_line:
  "CHR ''\<newline>'' \<notin> set l \<Longrightarrow> l \<noteq> [] \<Longrightarrow> split_lines l = [l]"
proof (induction l)
  case Nil
  then show ?case by simp
next
  case (Cons c l)
  show ?case
  proof (cases "l = []")
    case True
    with Cons.prems show ?thesis by simp
  next
    case False
    with Cons have "split_lines l = [l]" by simp
    with Cons.prems show ?thesis by auto
  qed
qed

lemma split_lines_line: "is_line l \<Longrightarrow> last l = CHR ''\<newline>'' \<Longrightarrow>
  split_lines (l @ rest) = l # split_lines rest"
proof -
  assume l: "is_line l" and e: "last l = CHR ''\<newline>''"
  then have "l = butlast l @ ''\<newline>''" and "CHR ''\<newline>'' \<notin> set (butlast l)"
    by (auto simp: is_line_def) (metis append_butlast_last_id)
  then show ?thesis
    using split_lines_no_newline [of "butlast l" rest] by (metis append.assoc append_Cons append_Nil)
qed

lemma split_lines_single: "is_line l \<Longrightarrow> split_lines l = [l]"
proof (cases "last l = CHR ''\<newline>''")
  case True
  assume "is_line l"
  from split_lines_line [OF this True, of "[]"] show ?thesis by simp
next
  case False
  assume l: "is_line l"
  then have "l \<noteq> []" by (simp add: is_line_def)
  with l False have "CHR ''\<newline>'' \<notin> set l"
    by (metis append_butlast_last_id is_line_def rotate1.simps(2) set_ConsD set_rotate1)
  with \<open>l \<noteq> []\<close> show ?thesis by (simp add: split_lines_last_line)
qed

lemma split_lines_concat: "lines_ok ls \<Longrightarrow> split_lines (concat ls) = ls"
proof (induction ls rule: lines_ok.induct)
  case 1
  show ?case by simp
next
  case (2 l)
  then show ?case by (simp add: split_lines_single)
next
  case (3 l l' ls)
  then show ?case by (simp add: split_lines_line)
qed

lemma lines_ok_no_CR: "lines_ok ls \<Longrightarrow> CHR 0x0D \<notin> set (concat ls)"
  by (induction ls rule: lines_ok.induct) (auto simp: is_line_def)

lemma readlines_concat: "lines_ok ls \<Longrightarrow> readlines (concat ls) = ls"
proof -
  assume ok: "lines_ok ls"
  then have "universal_newlines (concat ls) = concat ls"
    by (intro universal_newlines_id lines_ok_no_CR)
  with ok show ?thesis by (simp add: readlines_def split_lines_concat)
qed


lemma py_slice_from_neg: "0 < n \<Longrightarrow> py_slice_from (- n) xs = drop (length xs - nat n) xs"
  by (auto simp: py_slice_from_def intro: arg_cong [where f = "\<lambda>k. drop k xs"])

lemma trim_log_exceeding:
  assumes "log_file w = Some content" and "max_log_lines self < int (length (readlines content))"
    and "0 < max_log_lines self"
  shows "\<exists>content'. log_file (trim_log self w) = Some content'
     \<and> int (length (readlines content')) = max_log_lines self
     \<and> readlines content' = drop (length (readlines content) - nat (max_log_lines self)) (readlines content)"
proof -
  let ?ls = "readlines content"
  let ?tail = "drop (length ?ls - nat (max_log_lines self)) ?ls"
  from assms have w: "log_file (trim_log self w) = Some (concat ?tail)"
    by (simp add: trim_log_def py_slice_from_neg Let_def)
  have "lines_ok ?tail" by (intro lines_ok_drop lines_ok_readlines)
  then have r: "readlines (concat ?tail) = ?tail" by (rule readlines_concat)
  from assms(2,3) have "int (length ?tail) = max_log_lines self" by simp
  with w r show ?thesis by simp
qed

lemma trim_log_noop_absent: "log_file w = None \<Longrightarrow> trim_log self w = w"
  by (simp add: trim_log_def Let_def)

lemma trim_log_noop_within:
  "log_file w = Some content \<Longrightarrow> int (length (readlines content)) \<le> max_log_lines self \<Longrightarrow> trim_log self w = w"
  by (simp add: trim_log_def Let_def)


lemma is_digit_digit_char: "d < 10 \<Longrightarrow> is_digit (digit_char d)"
  by (simp add: is_digit_def digit_char_def)

lemma digit_value_digit_char: "d < 10 \<Longrightarrow> digit_value (digit_char d) = d"
  by (simp add: digit_value_def digit_char_def)

lemma digit_char_eq_zero: "d < 10 \<Longrightarrow> digit_char d = CHR ''0'' \<longleftrightarrow> d = 0"
proof
  assume "d < 10" and "digit_char d = CHR ''0''"
  then have "digit_value (digit_char d) = digit_value CHR ''0''" by simp
  with \<open>d < 10\<close> show "d = 0" by (simp add: digit_value_digit_char) (simp add: digit_value_def)
next
  assume "d = 0"
  moreover have "char_of (48::nat) = CHR ''0''" by code_simp
  ultimately show "digit_char d = CHR ''0''" by (simp add: digit_char_def)
qed

lemma nat_digits_not_Nil: "nat_digits n \<noteq> []"
  by (subst nat_digits.simps) simp

lemma nat_digits_all_digits: "c \<in> set (nat_digits n) \<Longrightarrow> is_digit c"
proof (induction n arbitrary: c rule: nat_digits.induct)
  case (1 n)
  show ?case
  proof (cases "n < 10")
    case True
    with "1.prems" show ?thesis
      by (simp add: nat_digits.simps [of n] is_digit_digit_char)
  next
    case False
    with "1.prems" have "c \<in> set (nat_digits (n div 10)) \<or> c = digit_char (n mod 10)"
      by (auto simp: nat_digits.simps [of n])
    with False "1.IH" show ?thesis by (auto simp: is_digit_digit_char)
  qed
qed

lemma digits_value_snoc: "digits_value (ds @ [c]) = 10 * digits_value ds + digit_value c"
  by (simp add: digits_value_def)

lemma digits_value_nat_digits: "digits_value (nat_digits n) = n"
proof (induction n rule: nat_digits.induct)
  case (1 n)
  show ?case
  proof (cases "n < 10")
    case True
    then show ?thesis
      by (simp add: nat_digits.simps [of n] digits_value_def digit_value_digit_char)
  next
    case False
    with "1.IH" have "digits_value (nat_digits (n div 10)) = n div 10" by simp
    with False show ?thesis
      by (simp add: nat_digits.simps [of n] digits_value_snoc digit_value_digit_char)
  qed
qed

lemma hd_nat_digits: "0 < n \<Longrightarrow> hd (nat_digits n) \<noteq> CHR ''0''"
proof (induction n rule: nat_digits.induct)
  case (1 n)
  show ?case
  proof (cases "n < 10")
    case True
    with "1.prems" show ?thesis
      by (simp add: nat_digits.simps [of n] digit_char_eq_zero)
  next
    case False
    with "1.IH" have "hd (nat_digits (n div 10)) \<noteq> CHR ''0''" by simp
    with False show ?thesis
      by (simp add: nat_digits.simps [of n] nat_digits_not_Nil)
  qed
qed

lemma int_literal_ok_digits: "ds \<noteq> [] \<Longrightarrow> \<forall>c \<in> set ds. is_digit c \<Longrightarrow> int_literal_ok ds"
proof (induction ds rule: int_literal_ok.induct)
  case 1
  then show ?case by simp
next
  case (2 c)
  then show ?case by simp
next
  case (3 c d cs)
  then have "d \<noteq> CHR ''_''" by (auto simp: is_digit_def)
  with 3 show ?case by simp
qed

lemma filter_digits: "\<forall>c \<in> set ds. is_digit c \<Longrightarrow> filter (\<lambda>x. x \<noteq> CHR ''_'') ds = ds"
  by (induction ds) (auto simp: is_digit_def)

lemma strip_unchanged:
  assumes "s \<noteq> []" and "\<not> P (hd s)" and "\<not> P (last s)"
  shows "rev (dropWhile P (rev (dropWhile P s))) = s"
proof -
  from assms(1,2) have "dropWhile P s = s" by (cases s) auto
  moreover from assms(1,3) have "dropWhile P (rev s) = rev s"
    by (cases "rev s") (auto simp: last_rev [symmetric] simp del: last_rev)
  ultimately show ?thesis by simp
qed

lemma digit_not_int_space: "is_digit c \<Longrightarrow> \<not> int_isspace c"
  by (auto simp: is_digit_def int_isspace_def Let_def)

lemma digit_value_le_9: "is_digit c \<Longrightarrow> digit_value c \<le> 9"
  by (auto simp: is_digit_def digit_value_def)

lemma digits_value_bound: "\<forall>c \<in> set ds. is_digit c \<Longrightarrow> digits_value ds < 10 ^ length ds"
proof (induction ds rule: rev_induct)
  case Nil
  show ?case by (simp add: digits_value_def)
next
  case (snoc c ds)
  then have "digits_value ds < 10 ^ length ds" and "digit_value c \<le> 9"
    by (auto dest: digit_value_le_9)
  then show ?case by (simp add: digits_value_snoc)
qed

lemma nat_digits_length_le: "n < 10 ^ k \<Longrightarrow> 0 < k \<Longrightarrow> length (nat_digits n) \<le> k"
proof (induction n arbitrary: k rule: nat_digits.induct)
  case (1 n)
  show ?case
  proof (cases "n < 10")
    case True
    with "1.prems" show ?thesis by (simp add: nat_digits.simps [of n])
  next
    case False
    from "1.prems" obtain j where k: "k = Suc j" by (cases k) auto
    with "1.prems" False have "0 < j" by (cases j) auto
    moreover from "1.prems" k have "n div 10 < 10 ^ j" by (simp add: div_less_iff_less_mult mult.commute)
    ultimately have "length (nat_digits (n div 10)) \<le> j" using "1.IH" False by simp
    with False k show ?thesis by (simp add: nat_digits.simps [of n])
  qed
qed

lemma nat_digits_length_gt: "10 ^ k \<le> n \<Longrightarrow> k < length (nat_digits n)"
proof (induction k arbitrary: n)
  case 0
  then show ?case using nat_digits_not_Nil [of n] by (cases "nat_digits n") auto
next
  case (Suc k)
  have "(10::nat) \<le> 10 ^ Suc k" by simp
  with Suc.prems have ten: "\<not> n < 10" by linarith
  from Suc.prems have "10 ^ k \<le> n div 10" by (simp add: less_eq_div_iff_mult_less_eq mult.commute)
  then have "k < length (nat_digits (n div 10))" by (rule Suc.IH)
  with ten show ?case by (simp add: nat_digits.simps [of n])
qed

lemma nat_digits_power: "nat_digits (10 ^ k) = CHR ''1'' # replicate k CHR ''0''"
proof (induction k)
  case 0
  have "char_of (49::nat) = CHR ''1''" by (simp add: char_of_eq_iff)
  then show ?case by (simp add: nat_digits.simps [of "Suc 0"] digit_char_def)
next
  case (Suc k)
  have "char_of (48::nat) = CHR ''0''" by (simp add: char_of_eq_iff)
  moreover have "\<not> (10::nat) ^ Suc k < 10" by simp
  ultimately have "nat_digits (10 ^ Suc k) = nat_digits (10 ^ k) @ ''0''"
    by (simp add: nat_digits.simps [of "10 ^ Suc k"] digit_char_def del: power_Suc)
      (simp)
  with Suc show ?case by (simp add: replicate_append_same del: power_Suc)
qed

lemma int_literal_ok_chars:
  "int_literal_ok body \<Longrightarrow> c \<in> set body \<Longrightarrow> is_digit c \<or> c = CHR ''_''"
  by (induction body rule: int_literal_ok.induct) (auto split: if_splits)

lemma within_str_digits_iff:
  "within_str_digits i \<longleftrightarrow> length (nat_digits (nat \<bar>i\<bar>)) \<le> int_max_str_digits"
proof
  assume "within_str_digits i"
  then have "nat \<bar>i\<bar> < 10 ^ int_max_str_digits"
    by (simp add: within_str_digits_def nat_less_iff)
  then show "length (nat_digits (nat \<bar>i\<bar>)) \<le> int_max_str_digits"
    by (rule nat_digits_length_le) (simp add: int_max_str_digits_def)
next
  assume l: "length (nat_digits (nat \<bar>i\<bar>)) \<le> int_max_str_digits"
  have "nat \<bar>i\<bar> < 10 ^ int_max_str_digits"
  proof (rule ccontr)
    assume "\<not> nat \<bar>i\<bar> < 10 ^ int_max_str_digits"
    then have "10 ^ int_max_str_digits \<le> nat \<bar>i\<bar>" by simp
    from nat_digits_length_gt [OF this] l show False by simp
  qed
  then show "within_str_digits i" by (simp add: within_str_digits_def nat_less_iff)
qed

lemma py_int_within_str_digits:
  assumes "py_int s = Some n"
  shows "within_str_digits n"
proof -
  from assms obtain body where ok: "int_literal_ok body"
    and len: "length (filter (\<lambda>x. x \<noteq> CHR ''_'') body) \<le> int_max_str_digits"
    and n: "\<bar>n\<bar> = int (digits_value (filter (\<lambda>x. x \<noteq> CHR ''_'') body))"
    by (auto simp: py_int_def Let_def split: list.splits if_splits)
  let ?ds = "filter (\<lambda>x. x \<noteq> CHR ''_'') body"
  from ok have "\<forall>c \<in> set ?ds. is_digit c" by (auto dest: int_literal_ok_chars)
  then have "digits_value ?ds < 10 ^ length ?ds" by (rule digits_value_bound)
  also from len have "(10::nat) ^ length ?ds \<le> 10 ^ int_max_str_digits"
    by (intro power_increasing) simp_all
  finally have "int (digits_value ?ds) < 10 ^ int_max_str_digits"
    by (metis of_nat_less_iff of_nat_numeral of_nat_power)
  with n show ?thesis by (simp add: within_str_digits_def)
qed

lemma py_int_py_str_cases:
  "py_int (py_str i) = (if within_str_digits i then Some i else None)"
proof -
  define ds where "ds = nat_digits (nat \<bar>i\<bar>)"
  have ne: "ds \<noteq> []" and dig: "\<forall>c \<in> set ds. is_digit c" and val: "digits_value ds = nat \<bar>i\<bar>"
    by (auto simp: ds_def nat_digits_not_Nil nat_digits_all_digits digits_value_nat_digits)
  have cap: "length ds \<le> int_max_str_digits \<longleftrightarrow> within_str_digits i"
    by (simp add: ds_def within_str_digits_iff)
  from ne dig have last_d: "is_digit (last ds)" and hd_d: "is_digit (hd ds)" by auto
  show ?thesis
  proof (cases "i < 0")
    case True
    then have s: "py_str i = CHR ''-'' # ds" by (simp add: py_str_def ds_def)
    have "int_strip (CHR ''-'' # ds) = CHR ''-'' # ds"
      unfolding int_strip_def using ne last_d
      by (intro strip_unchanged) (auto simp: int_isspace_def Let_def dest: digit_not_int_space)
    with s ne dig val True cap show ?thesis
      by (simp add: py_int_def int_literal_ok_digits filter_digits)
  next
    case False
    then have s: "py_str i = ds" by (simp add: py_str_def ds_def)
    have strip: "int_strip ds = ds"
      unfolding int_strip_def using ne last_d hd_d
      by (intro strip_unchanged) (auto dest: digit_not_int_space)
    obtain c r where cr: "ds = c # r" using ne by (cases ds) auto
    with hd_d have "c \<noteq> CHR ''-''" "c \<noteq> CHR ''+''" by (auto simp: is_digit_def)
    with strip cr have "py_int ds =
      (if int_literal_ok ds \<and> length (filter (\<lambda>x. x \<noteq> CHR ''_'') ds) \<le> int_max_str_digits
       then Some (int (digits_value (filter (\<lambda>x. x \<noteq> CHR ''_'') ds))) else None)"
      by (simp add: py_int_def Let_def del: int_literal_ok.simps filter.simps)
    with s ne dig val False cap show ?thesis
      by (simp add: int_literal_ok_digits filter_digits)
  qed
qed

lemma small_within_str_digits: "\<bar>i\<bar> < 10000 \<Longrightarrow> within_str_digits i"
proof -
  assume "\<bar>i\<bar> < 10000"
  also have "(10000::int) = 10 ^ 4" by simp
  also have "(10::int) ^ 4 \<le> 10 ^ int_max_str_digits"
    by (rule power_increasing) (simp_all add: int_max_str_digits_def)
  finally show ?thesis by (simp only: within_str_digits_def)
qed

lemma py_int_beyond_limit:
  "py_int (CHR ''1'' # replicate int_max_str_digits CHR ''0'') = None"
proof -
  have "\<not> within_str_digits (10 ^ int_max_str_digits)"
    by (simp add: within_str_digits_def)
  moreover have "py_str (10 ^ int_max_str_digits)
      = CHR ''1'' # replicate int_max_str_digits CHR ''0''"
    by (simp add: py_str_def nat_power_eq nat_digits_power)
  ultimately show ?thesis
    using py_int_py_str_cases [of "10 ^ int_max_str_digits"] by simp
qed

lemma py_int_py_str: "within_str_digits i \<Longrightarrow> py_int (py_str i) = Some i"
  by (simp add: py_int_py_str_cases)

lemma takeWhile_digits: "\<forall>c \<in> set ds. is_digit c \<Longrightarrow> \<not> is_digit x \<Longrightarrow>
  takeWhile is_digit (ds @ x # t) = ds \<and> dropWhile is_digit (ds @ x # t) = x # t"
  by (induction ds) auto

lemma newline_not_digit: "\<not> is_digit CHR ''\<newline>''"
  by (simp add: is_digit_def)

lemma match_fraction_newline: "match_fraction (CHR ''\<newline>'' # t) = ([], CHR ''\<newline>'' # t)"
  by (cases t) (simp_all add: match_fraction_def)

lemma match_exponent_newline: "match_exponent (CHR ''\<newline>'' # t) = ([], CHR ''\<newline>'' # t)"
  by (cases t) (simp_all add: match_exponent_def)

lemma match_number_digits:
  assumes "\<forall>c \<in> set ds. is_digit c" and "ds \<noteq> []" and "length ds > 1 \<longrightarrow> hd ds \<noteq> CHR ''0''"
    and "length ds \<le> int_max_str_digits"
  shows "match_number (ds @ CHR ''\<newline>'' # t) = Some (PyInt (int (digits_value ds)), CHR ''\<newline>'' # t)"
proof -
  from assms(2) obtain c r where ds: "ds = c # r" by (cases ds) auto
  with assms(1) have c: "is_digit c" and r: "\<forall>c \<in> set r. is_digit c" by auto
  from c have nm: "c \<noteq> CHR ''-''" by (auto simp: is_digit_def)
  note tw = takeWhile_digits [OF r newline_not_digit, of t]
  show ?thesis
  proof (cases "c = CHR ''0''")
    case True
    with assms(3) ds have "r = []" by (cases r) auto
    with True ds c show ?thesis
      by (simp add: match_number_def match_fraction_newline match_exponent_newline
          int_max_str_digits_def)
  next
    case False
    with ds c nm tw assms(4) show ?thesis
      by (simp add: match_number_def match_fraction_newline match_exponent_newline)
  qed
qed

lemma length_nat_digits: "length (nat_digits n) > 1 \<Longrightarrow> 0 < n"
  by (cases "n = 0") (simp_all add: nat_digits.simps [of 0])

lemma match_number_nat_digits:
  assumes "length (nat_digits n) \<le> int_max_str_digits"
  shows "match_number (nat_digits n @ CHR ''\<newline>'' # t) = Some (PyInt (int n), CHR ''\<newline>'' # t)"
proof -
  have "length (nat_digits n) > 1 \<longrightarrow> hd (nat_digits n) \<noteq> CHR ''0''"
    using length_nat_digits [of n] hd_nat_digits [of n] by blast
  with match_number_digits [of "nat_digits n" t] assms show ?thesis
    by (simp add: nat_digits_all_digits nat_digits_not_Nil digits_value_nat_digits)
qed

lemma match_number_minus:
  assumes "match_number (d # s) = Some (PyInt k, r)" and "is_digit d"
  shows "match_number (CHR ''-'' # d # s) = Some (PyInt (- k), r)"
proof -
  from assms(2) have "d \<noteq> CHR ''-''" by (auto simp: is_digit_def)
  with assms show ?thesis
    by (auto simp: match_number_def Let_def split: if_splits prod.splits)
qed

lemma match_number_py_str:
  assumes "within_str_digits i"
  shows "match_number (py_str i @ CHR ''\<newline>'' # t) = Some (PyInt i, CHR ''\<newline>'' # t)"
proof (cases "i < 0")
  case False
  with assms have "length (nat_digits (nat i)) \<le> int_max_str_digits"
    by (simp add: within_str_digits_iff)
  with False show ?thesis by (simp add: py_str_def match_number_nat_digits)
next
  case True
  with assms have l: "length (nat_digits (nat (- i))) \<le> int_max_str_digits"
    by (simp add: within_str_digits_iff)
  obtain d s where ds: "nat_digits (nat (- i)) = d # s"
    using nat_digits_not_Nil [of "nat (- i)"] by (cases "nat_digits (nat (- i))") auto
  then have d: "is_digit d" using nat_digits_all_digits [of d "nat (- i)"] by simp
  have "match_number (d # s @ CHR ''\<newline>'' # t) = Some (PyInt (int (nat (- i))), CHR ''\<newline>'' # t)"
    using match_number_nat_digits [OF l, of t] ds by simp
  from match_number_minus [OF this d] True ds show ?thesis by (simp add: py_str_def)
qed

lemma strip_prefix_Cons:
  "strip_prefix (p # ps) (c # s) = (if c = p then strip_prefix ps s else None)"
  by (simp add: strip_prefix_def)

lemma match_constant_digit: "is_digit c \<Longrightarrow> match_constant (c # s) = None"
proof -
  assume "is_digit c"
  then have "c \<noteq> CHR ''n''" "c \<noteq> CHR ''t''" "c \<noteq> CHR ''f''" "c \<noteq> CHR ''N''"
    "c \<noteq> CHR ''I''" "c \<noteq> CHR ''-''"
    by (auto simp: is_digit_def)
  then show ?thesis by (simp add: match_constant_def strip_prefix_Cons)
qed

lemma match_constant_minus_digit: "is_digit d \<Longrightarrow> match_constant (CHR ''-'' # d # s) = None"
proof -
  assume "is_digit d"
  then have "d \<noteq> CHR ''I''" by (auto simp: is_digit_def)
  then show ?thesis by (simp add: match_constant_def strip_prefix_Cons)
qed

lemma py_str_cases:
  obtains (digit) d s where "py_str i = d # s" and "is_digit d"
  | (minus) d s where "py_str i = CHR ''-'' # d # s" and "is_digit d"
proof (cases "i < 0")
  case False
  obtain d s where ds: "nat_digits (nat i) = d # s"
    using nat_digits_not_Nil [of "nat i"] by (cases "nat_digits (nat i)") auto
  then have "is_digit d" using nat_digits_all_digits [of d "nat i"] by simp
  with False ds show ?thesis by (intro digit [of d s]) (simp_all add: py_str_def)
next
  case True
  obtain d s where ds: "nat_digits (nat (- i)) = d # s"
    using nat_digits_not_Nil [of "nat (- i)"] by (cases "nat_digits (nat (- i))") auto
  then have "is_digit d" using nat_digits_all_digits [of d "nat (- i)"] by simp
  with True ds show ?thesis by (intro minus [of d s]) (simp_all add: py_str_def)
qed

lemma scan_once_py_str:
  assumes "within_str_digits i"
  shows "scan_once (py_str i @ CHR ''\<newline>'' # t) = Some (PyInt i, CHR ''\<newline>'' # t)"
proof (cases i rule: py_str_cases)
  case (digit d s)
  then have q: "d \<noteq> CHR 0x22" "d \<noteq> CHR ''{''" "d \<noteq> CHR ''[''"
    by (auto simp: is_digit_def)
  from digit have "scan_once (py_str i @ CHR ''\<newline>'' # t) = match_number (py_str i @ CHR ''\<newline>'' # t)"
    using q by (simp add: match_constant_digit)
  with assms show ?thesis by (simp add: match_number_py_str)
next
  case (minus d s)
  then have "scan_once (py_str i @ CHR ''\<newline>'' # t) = match_number (py_str i @ CHR ''\<newline>'' # t)"
    by (simp add: match_constant_minus_digit)
  with assms show ?thesis by (simp add: match_number_py_str)
qed

lemma py_str_not_ws: "skip_ws (py_str i @ t) = py_str i @ t"
  by (cases i rule: py_str_cases) (auto simp: skip_ws_def is_json_ws_def is_digit_def)



lemma scanstring_interval_key: "scanstring [] (''interval'' @ CHR 0x22 # t) = Some (interval_key, t)"
  by (simp add: interval_key_def py_text_def)


lemma encode_interval_key: "encode_basestring_ascii interval_key = [CHR 0x22] @ ''interval'' @ [CHR 0x22]"
  by (simp add: encode_basestring_ascii_def encode_char_def interval_key_def py_text_def char_of_eq_iff)

lemma dumps_interval:
  "json_dumps_indent2 (PyDict [(interval_key, PyInt i)]) =
     ''{'' @ ''\<newline>'' @ ''  '' @ [CHR 0x22] @ ''interval'' @ [CHR 0x22] @ '': '' @ py_str i @ ''\<newline>'' @ ''}''"
  by (simp add: json_dumps_indent2_def encode_interval_key newline_indent_def numeral_2_eq_2)

lemma json_loads_dumps_interval:
  assumes "within_str_digits i"
  shows "json_loads (json_dumps_indent2 (PyDict [(interval_key, PyInt i)])) = Some (PyDict [(interval_key, PyInt i)])"
proof -
  have 1: "scan_once (skip_ws (py_str i @ ''\<newline>}'')) = Some (PyInt i, ''\<newline>}'')"
    using assms by (simp add: py_str_not_ws scan_once_py_str)
  have 2: "parse_object [] ([CHR 0x22] @ ''interval'' @ [CHR 0x22] @ '': '' @ py_str i @ ''\<newline>}'')
    = Some (PyDict [(interval_key, PyInt i)], [])"
    using 1 scanstring_interval_key [of "'': '' @ py_str i @ ''\<newline>}''"]
    by (simp add: skip_ws_def is_json_ws_def)
  show ?thesis
    using 2 by (simp add: dumps_interval json_loads_def skip_ws_def is_json_ws_def)
qed

lemma strip_prefix_shorter: "strip_prefix p s = Some r \<Longrightarrow> p \<noteq> [] \<Longrightarrow> length r < length s"
  by (cases s) (auto simp: strip_prefix_def split: if_splits)

lemma match_constant_shorter: "match_constant s = Some (v, r) \<Longrightarrow> length r < length s"
  unfolding match_constant_def
  by (auto split: option.splits dest!: strip_prefix_shorter)

lemma match_fraction_shorter: "match_fraction s = (f, r) \<Longrightarrow> length r \<le> length s"
  by (auto simp: match_fraction_def split: list.splits if_splits
      intro: le_trans [OF length_dropWhile_le])

lemma match_exponent_shorter: "match_exponent s = (e, r) \<Longrightarrow> length r \<le> length s"
  by (auto simp: match_exponent_def Let_def split: list.splits if_splits
      intro: le_trans [OF length_dropWhile_le])

lemma match_number_shorter:
  assumes "match_number s = Some (v, r)"
  shows "length r < length s"
proof -
  define t where "t = (if s \<noteq> [] \<and> hd s = CHR ''-'' then tl s else s)"
  have ts: "length t \<le> length s" by (simp add: t_def)
  from assms obtain c u where t: "t = c # u" and c: "is_digit c"
    by (auto simp: match_number_def Let_def t_def split: list.splits if_splits)
  define r1 where "r1 = (if c = CHR ''0'' then u else dropWhile is_digit u)"
  have r1: "length r1 \<le> length u" by (simp add: r1_def length_dropWhile_le)
  obtain f r2 where f: "match_fraction r1 = (f, r2)" by (cases "match_fraction r1")
  obtain e r3 where e: "match_exponent r2 = (e, r3)" by (cases "match_exponent r2")
  from assms t c f e have "r = r3"
    by (auto simp: match_number_def Let_def t_def r1_def split: if_splits)
  with match_fraction_shorter [OF f] match_exponent_shorter [OF e] r1 ts t
  show ?thesis by simp
qed

lemma scan_once_shorter:
  "scan_once s = Some (v, r) \<Longrightarrow> length r < length s"
  "parse_array acc s = Some (v, r) \<Longrightarrow> length r < length s"
  "parse_object items s = Some (v, r) \<Longrightarrow> length r < length s"
proof (induction s and acc s and items s arbitrary: v r and v r and v r
    rule: scan_once_parse_array_parse_object.induct)
  case 1
  then show ?case by simp
next
  case (2 c cs)
  show ?case
  proof (cases "c = CHR 0x22")
    case True
    with "2.prems" show ?thesis
      by (auto split: option.splits dest: scanstring_shorter)
  next
    case q: False
    show ?thesis
    proof (cases "c = CHR ''{''")
      case True
      with q "2.prems" obtain d u where sk: "skip_ws cs = d # u"
        by (auto split: list.splits)
      show ?thesis
      proof (cases "d = CHR ''}''")
        case True
        with q \<open>c = CHR ''{''\<close> sk "2.prems" show ?thesis
          using skip_ws_Cons_length [OF sk] by auto
      next
        case False
        with q \<open>c = CHR ''{''\<close> sk "2.prems" have "parse_object [] (d # u) = Some (v, r)" by simp
        from "2.IH"(1) [OF q \<open>c = CHR ''{''\<close> sk False this] skip_ws_Cons_length [OF sk]
        show ?thesis by simp
      qed
    next
      case b: False
      show ?thesis
      proof (cases "c = CHR ''[''")
        case True
        with q b "2.prems" obtain d u where sk: "skip_ws cs = d # u"
          by (auto split: list.splits)
        show ?thesis
        proof (cases "d = CHR '']''")
          case True
          with q b \<open>c = CHR ''[''\<close> sk "2.prems" show ?thesis
            using skip_ws_Cons_length [OF sk] by auto
        next
          case False
          with q b \<open>c = CHR ''[''\<close> sk "2.prems" have "parse_array [] (d # u) = Some (v, r)" by simp
          from "2.IH"(2) [OF q b \<open>c = CHR ''[''\<close> sk False this] skip_ws_Cons_length [OF sk]
          show ?thesis by simp
        qed
      next
        case False
        with q b "2.prems" show ?thesis
          by (auto split: option.splits dest: match_constant_shorter match_number_shorter)
      qed
    qed
  qed
next
  case (3 acc s)
  from "3.prems" obtain x u where so: "scan_once s = Some (x, u)"
    by (auto simp: parse_array.simps [of acc s] split: option.splits)
  from "3.prems" so obtain d u' where sk: "skip_ws u = d # u'"
    by (auto simp: parse_array.simps [of acc s] split: list.splits)
  from "3.IH"(1) [OF so] have u: "length u < length s" .
  show ?case
  proof (cases "d = CHR '']''")
    case True
    with "3.prems" so sk have "r = u'" by (simp add: parse_array.simps [of acc s])
    with u skip_ws_Cons_length [OF sk] show ?thesis by simp
  next
    case False
    with "3.prems" so sk have d: "d = CHR '',''" and g: "length u' < length s"
      and rec: "parse_array (acc @ [x]) (skip_ws u') = Some (v, r)"
      by (auto simp: parse_array.simps [of acc s] split: if_splits)
    from "3.IH"(2) [OF so refl sk False _ rec] d g
    have "length r < length (skip_ws u')" by simp
    with skip_ws_length [of u'] g show ?thesis by simp
  qed
next
  case (4 items s)
  from "4.prems" obtain s1 where s: "s = CHR 0x22 # s1"
    by (auto simp: parse_object.simps [of items s] split: list.splits if_splits)
  from "4.prems" s obtain k s2 where ss: "scanstring [] s1 = Some (k, s2)"
    by (auto simp: parse_object.simps [of items s] split: option.splits)
  from "4.prems" s ss obtain s3 where sk: "skip_ws s2 = CHR '':'' # s3"
    by (auto simp: parse_object.simps [of items s] split: list.splits if_splits)
  from "4.prems" s ss sk obtain x u where so: "scan_once (skip_ws s3) = Some (x, u)"
    by (auto simp: parse_object.simps [of items s] split: option.splits)
  from "4.prems" s ss sk so obtain d u' where sk': "skip_ws u = d # u'"
    by (auto simp: parse_object.simps [of items s] split: list.splits)
  have l3: "length (skip_ws s3) < length s"
    using scanstring_shorter [OF ss] skip_ws_Cons_length [OF sk] skip_ws_length [of s3] s by simp
  from "4.IH"(1) [OF s refl ss refl sk refl so] have u: "length u < length (skip_ws s3)" by simp
  show ?case
  proof (cases "d = CHR ''}''")
    case True
    with "4.prems" s ss sk so sk' have "r = u'" by (simp add: parse_object.simps [of items s])
    with u l3 skip_ws_Cons_length [OF sk'] show ?thesis by simp
  next
    case False
    with "4.prems" s ss sk so sk' have d: "d = CHR '',''" and g: "length u' < length s"
      and rec: "parse_object (dict_set items k x) (skip_ws u') = Some (v, r)"
      by (auto simp: parse_object.simps [of items s] split: if_splits)
    from "4.IH"(2) [OF s refl ss refl sk refl so refl sk' False _ rec] d g
    have "length r < length (skip_ws u')" by simp
    with skip_ws_length [of u'] g show ?thesis by simp
  qed
qed

text \<open>
  So the tests on the length in \<open>parse_array\<close> and \<open>parse_object\<close> always hold
  where they are made.
\<close>

lemma loop_guards_hold:
  assumes "scan_once s = Some (v, r)" and "skip_ws r = d # r'"
  shows "length r' < length s"
  using scan_once_shorter(1) [OF assms(1)] skip_ws_Cons_length [OF assms(2)] by simp

lemma py_str_no_CR: "CHR 0x0D \<notin> set (py_str i)"
proof -
  have "CHR 0x0D \<notin> set (nat_digits n)" for n
  proof
    assume "CHR 0x0D \<in> set (nat_digits n)"
    then have "is_digit CHR 0x0D" by (rule nat_digits_all_digits)
    then show False by (simp add: is_digit_def)
  qed
  then show ?thesis by (simp add: py_str_def)
qed

lemma dumps_interval_no_CR:
  "universal_newlines (json_dumps_indent2 (PyDict [(interval_key, PyInt i)]))
     = json_dumps_indent2 (PyDict [(interval_key, PyInt i)])"
  by (rule universal_newlines_id) (simp add: dumps_interval py_str_no_CR)

lemma load_after_save:
  "within_str_digits i \<Longrightarrow>
   load_config self0 (save_config (self\<lparr>interval := PyInt i\<rparr>) w)
     = (self0\<lparr>interval := PyInt i\<rparr>, save_config (self\<lparr>interval := PyInt i\<rparr>) w)"
  by (simp add: load_config_def save_config_def dumps_interval_no_CR json_loads_dumps_interval
      dict_get_def)

lemma stored_interval_save:
  "within_str_digits i \<Longrightarrow>
   stored_interval (print line (save_config (self\<lparr>interval := PyInt i\<rparr>) w)) = Some (PyInt i)"
  by (simp add: stored_interval_def save_config_def print_def dumps_interval_no_CR
      json_loads_dumps_interval)

lemma main_set_interval:
  "py_int a = Some n \<Longrightarrow>
   main [prog, ''set-interval'', a] w =
     Exit 0 (snd (set_interval (fst (RunScriptService w)) (PyInt n) (snd (RunScriptService w))))"
  by (simp add: main_def split: prod.splits)

lemma main_invalid_interval:
  "py_int a = None \<Longrightarrow>
   main [prog, ''set-interval'', a] w
     = Exit 1 (print Invalid_interval_value (snd (RunScriptService w)))"
  by (simp add: main_def split: prod.splits)

section \<open>Facts about the script\<close>

lemma constructor_keeps_files:
  "config_file (snd (RunScriptService w)) = config_file w"
  "log_file (snd (RunScriptService w)) = log_file w"
  "opened_for_writing (snd (RunScriptService w)) = opened_for_writing w"
  by (simp_all add: RunScriptService_def load_config_def print_def
      split: option.splits pyval.splits)

lemma entry_lines_shape:
  "hd (entry_lines ts rc out err) = ''['' @ ts @ ''] Exit code: '' @ py_str rc @ ''\<newline>''"
  "last (entry_lines ts rc out err) = replicate 50 CHR ''-'' @ ''\<newline>''"
  "(''STDOUT: '' @ py_strip out @ ''\<newline>'') \<in> set (entry_lines ts rc out err) \<longleftrightarrow> out \<noteq> []"
  "(''STDERR: '' @ py_strip err @ ''\<newline>'') \<in> set (entry_lines ts rc out err) \<longleftrightarrow> err \<noteq> []"
proof -
  have d: "replicate 50 CHR ''-'' = CHR ''-'' # replicate 49 CHR ''-''"
    by (simp add: numeral_eq_Suc)
  show "hd (entry_lines ts rc out err) = ''['' @ ts @ ''] Exit code: '' @ py_str rc @ ''\<newline>''"
    and "last (entry_lines ts rc out err) = replicate 50 CHR ''-'' @ ''\<newline>''"
    by (simp_all add: entry_lines_def)
  show "(''STDOUT: '' @ py_strip out @ ''\<newline>'') \<in> set (entry_lines ts rc out err) \<longleftrightarrow> out \<noteq> []"
    by (auto simp: entry_lines_def d)
  show "(''STDERR: '' @ py_strip err @ ''\<newline>'') \<in> set (entry_lines ts rc out err) \<longleftrightarrow> err \<noteq> []"
    by (auto simp: entry_lines_def d)
qed

lemma run_events_halted: "halted (control m) \<Longrightarrow> run_events lf evs m = m"
  by (induction evs) (simp_all add: step_def)

lemma halted_signal: "halted (control (signal_handler n m))"
  by (simp add: signal_handler_def stop_def halted_def)

lemma sleeps_signal: "sleeps (signal_handler n m) = sleeps m"
  by (simp add: signal_handler_def stop_def)

lemma step_signal: "\<not> halted (control m) \<Longrightarrow> step lf (Signal n) m = signal_handler n m"
  by (simp add: step_def)

lemma waiting_not_halted: "waiting c \<Longrightarrow> \<not> halted c"
  by (auto simp: waiting_def halted_def)

lemma stopped_outer:
  assumes "control m = Outer_test" and "\<not> running (svc m)"
  shows "sleeps (run_events lf evs m) = sleeps m"
    and "1 \<le> length evs \<Longrightarrow> halted (control (run_events lf evs m))"
proof -
  have nh: "\<not> halted (control m)" using assms(1) by (simp add: halted_def)
  have *: "sleeps (run_events lf evs m) = sleeps m
     \<and> (1 \<le> length evs \<longrightarrow> halted (control (run_events lf evs m)))"
  proof (cases evs)
    case Nil
    then show ?thesis by simp
  next
    case (Cons ev rest)
    show ?thesis
    proof (cases ev)
      case (Signal n)
      with Cons nh show ?thesis
        by (simp add: step_signal run_events_halted halted_signal sleeps_signal)
    next
      case (Proceed x)
      with assms nh have s: "step lf ev m = m\<lparr>control := Returned\<rparr>" by (simp add: step_def)
      have "halted (control (m\<lparr>control := Returned\<rparr>))" by (simp add: halted_def)
      with Cons s show ?thesis by (simp add: run_events_halted)
    qed
  qed
  from * show "sleeps (run_events lf evs m) = sleeps m" by simp
  from * show "1 \<le> length evs \<Longrightarrow> halted (control (run_events lf evs m))" by simp
qed

lemma stopped_inner:
  assumes "control m = Inner_test" and "\<not> running (svc m)"
  shows "sleeps (run_events lf evs m) = sleeps m"
    and "2 \<le> length evs \<Longrightarrow> halted (control (run_events lf evs m))"
proof -
  have nh: "\<not> halted (control m)" using assms(1) by (simp add: halted_def)
  have *: "sleeps (run_events lf evs m) = sleeps m
     \<and> (2 \<le> length evs \<longrightarrow> halted (control (run_events lf evs m)))"
  proof (cases evs)
    case Nil
    then show ?thesis by simp
  next
    case (Cons ev rest)
    show ?thesis
    proof (cases ev)
      case (Signal n)
      with Cons nh show ?thesis
        by (simp add: step_signal run_events_halted halted_signal sleeps_signal)
    next
      case (Proceed x)
      show ?thesis
      proof (cases "int_less lf (elapsed m) (interval (svc m))")
        case (Inl e)
        with Proceed assms nh have s: "step lf ev m = m\<lparr>control := Uncaught e\<rparr>"
          by (simp add: step_def)
        have "halted (control (m\<lparr>control := Uncaught e\<rparr>))" by (simp add: halted_def)
        with Cons s show ?thesis by (simp add: run_events_halted)
      next
        case (Inr b)
        with Proceed assms nh have s: "step lf ev m = m\<lparr>control := Outer_test\<rparr>"
          by (simp add: step_def)
        from stopped_outer [where m = "m\<lparr>control := Outer_test\<rparr>" and lf = lf and evs = rest] assms(2) Cons s
        show ?thesis by simp
      qed
    qed
  qed
  from * show "sleeps (run_events lf evs m) = sleeps m" by simp
  from * show "2 \<le> length evs \<Longrightarrow> halted (control (run_events lf evs m))" by simp
qed

lemma stopped_increment:
  assumes "control m = Increment" and "\<not> running (svc m)"
  shows "sleeps (run_events lf evs m) = sleeps m"
    and "3 \<le> length evs \<Longrightarrow> halted (control (run_events lf evs m))"
proof -
  have nh: "\<not> halted (control m)" using assms(1) by (simp add: halted_def)
  have *: "sleeps (run_events lf evs m) = sleeps m
     \<and> (3 \<le> length evs \<longrightarrow> halted (control (run_events lf evs m)))"
  proof (cases evs)
    case Nil
    then show ?thesis by simp
  next
    case (Cons ev rest)
    show ?thesis
    proof (cases ev)
      case (Signal n)
      with Cons nh show ?thesis
        by (simp add: step_signal run_events_halted halted_signal sleeps_signal)
    next
      case (Proceed x)
      with assms nh
      have s: "step lf ev m = m\<lparr>elapsed := elapsed m + 1, control := Inner_test\<rparr>"
        by (simp add: step_def)
      from stopped_inner [where m = "m\<lparr>elapsed := elapsed m + 1, control := Inner_test\<rparr>" and lf = lf and evs = rest]
        assms(2) Cons s
      show ?thesis by simp
    qed
  qed
  from * show "sleeps (run_events lf evs m) = sleeps m" by simp
  from * show "3 \<le> length evs \<Longrightarrow> halted (control (run_events lf evs m))" by simp
qed

lemma stopped_sleep:
  assumes "control m = Sleep" and "\<not> running (svc m)"
  shows "sleeps (run_events lf evs m) \<le> Suc (sleeps m)"
    and "4 \<le> length evs \<Longrightarrow> halted (control (run_events lf evs m))"
proof -
  have nh: "\<not> halted (control m)" using assms(1) by (simp add: halted_def)
  have *: "sleeps (run_events lf evs m) \<le> Suc (sleeps m)
     \<and> (4 \<le> length evs \<longrightarrow> halted (control (run_events lf evs m)))"
  proof (cases evs)
    case Nil
    then show ?thesis by simp
  next
    case (Cons ev rest)
    show ?thesis
    proof (cases ev)
      case (Signal n)
      with Cons nh show ?thesis
        by (simp add: step_signal run_events_halted halted_signal sleeps_signal)
    next
      case (Proceed x)
      with assms nh
      have s: "step lf ev m = m\<lparr>sleeps := Suc (sleeps m), control := Increment\<rparr>"
        by (simp add: step_def)
      from stopped_increment [where m = "m\<lparr>sleeps := Suc (sleeps m), control := Increment\<rparr>" and lf = lf and evs = rest]
        assms(2) Cons s
      show ?thesis by simp
    qed
  qed
  from * show "sleeps (run_events lf evs m) \<le> Suc (sleeps m)" by simp
  from * show "4 \<le> length evs \<Longrightarrow> halted (control (run_events lf evs m))" by simp
qed

lemma one_poll_per_sleep:
  assumes "control m = Inner_test" and "running (svc m)"
    and "int_less lf (elapsed m) (interval (svc m)) = Inr True"
  shows "run_events lf [Proceed x1, Proceed x2, Proceed x3] m
     = m\<lparr>elapsed := elapsed m + 1, sleeps := Suc (sleeps m)\<rparr>"
  using assms by (simp add: step_def halted_def)

lemma py_int_minus_five: "py_int ''-5'' = Some (- 5)"
  by (simp add: py_int_def int_strip_def int_isspace_def is_digit_def digits_value_def
      digit_value_def int_max_str_digits_def)

lemma py_str_minus_five: "py_str (- 5) = ''-5''"
  by (simp add: py_str_def nat_digits.simps digit_char_def char_of_eq_iff)

lemma constructor_empty_world:
  "RunScriptService empty_world
     = (\<lparr>running = False, interval = PyInt 3600, max_log_lines = 100\<rparr>, empty_world)"
  by (simp add: RunScriptService_def load_config_def empty_world_def)

lemma main_writes_only_by_set_interval:
  assumes "main argv w = Exit c w'" and "opened_for_writing w' \<noteq> opened_for_writing w"
  shows "\<exists>n. length argv = 3 \<and> argv ! 1 = ''set-interval'' \<and> py_int (argv ! 2) = Some n
     \<and> c = 0 \<and> stored_interval w' = Some (PyInt n)
     \<and> opened_for_writing w' = opened_for_writing w @ [Config_path]"
proof -
  obtain service w1 where r: "RunScriptService w = (service, w1)"
    by (cases "RunScriptService w")
  then have k: "opened_for_writing w1 = opened_for_writing w"
    using constructor_keeps_files(3) [of w] by simp
  show ?thesis
  proof (cases "1 < length argv \<and> argv ! 1 = ''set-interval'' \<and> length argv = 3
      \<and> py_int (argv ! 2) \<noteq> None")
    case True
    then obtain n where n: "py_int (argv ! 2) = Some n" by auto
    with True r assms(1) have c: "c = 0"
      and w': "w' = print (Interval_set (PyInt n)) (save_config (service\<lparr>interval := PyInt n\<rparr>) w1)"
      by (auto simp: main_def set_interval_def Let_def)
    from w' py_int_within_str_digits [OF n] have "stored_interval w' = Some (PyInt n)"
      by (simp only: stored_interval_save)
    moreover from w' k have "opened_for_writing w' = opened_for_writing w @ [Config_path]"
      by (simp add: print_def save_config_def)
    ultimately show ?thesis using True n c by simp
  next
    case False
    with r assms(1) have "opened_for_writing w' = opened_for_writing w1"
      by (auto simp: main_def print_def Let_def split: if_splits option.splits)
    with k assms(2) show ?thesis by simp
  qed
qed

lemma default_interval:
  assumes "config_file w = None
     \<or> (\<exists>content. config_file w = Some content \<and> json_loads (universal_newlines content) = None)"
  shows "interval (fst (RunScriptService w)) = PyInt 3600"
  using assms by (auto simp: RunScriptService_def load_config_def)

lemma execute_script_keeps_config:
  "config_file (execute_script self x w) = config_file w"
  by (simp add: execute_script_def trim_log_def append_log_def print_def Let_def
      split: run_result.splits)

lemma step_keeps_config: "config_file (env (step lf ev m)) = config_file (env m)"
  by (simp add: step_def signal_handler_def stop_def print_def execute_script_keeps_config
      split: event.splits control.splits sum.splits)

section \<open>The claims\<close>

text \<open>
  C1. The claim: every operation that writes the configuration stores a positive
  integer, and without a configuration file or after a parse failure the interval in
  memory is 3600. The first half fails: \<^verbatim>\<open>main\<close> passes whatever \<^verbatim>\<open>int()\<close> returns
  to \<^verbatim>\<open>set_interval\<close>, and nothing in the script compares it with zero.
\<close>

theorem C1_counterexample:
  "main [''run_script_service.py'', ''set-interval'', ''-5''] empty_world = Exit 0 minus_five_saved
   \<and> stored_interval minus_five_saved = Some (PyInt (- 5))
   \<and> \<not> positive_integer (PyInt (- 5))"
proof -
  have m: "main [''run_script_service.py'', ''set-interval'', ''-5''] empty_world
      = Exit 0 minus_five_saved"
    using main_set_interval [OF py_int_minus_five, of "''run_script_service.py''" empty_world]
    by (simp add: constructor_empty_world set_interval_def save_config_def print_def
        dumps_interval py_str_minus_five minus_five_saved_def)
      (simp add: empty_world_def)
  have "minus_five_saved
      = print (Interval_set (PyInt (- 5)))
          (save_config (\<lparr>running = False, interval = PyInt 3600, max_log_lines = 100\<rparr>
             \<lparr>interval := PyInt (- 5)\<rparr>) empty_world)"
    by (simp add: minus_five_saved_def print_def save_config_def dumps_interval
        py_str_minus_five empty_world_def)
  then have s: "stored_interval minus_five_saved = Some (PyInt (- 5))"
    using stored_interval_save
      [where line = "Interval_set (PyInt (- 5))"
         and self = "\<lparr>running = False, interval = PyInt 3600, max_log_lines = 100\<rparr>"
         and i = "- 5" and w = empty_world]
      small_within_str_digits [of "- 5"]
    by simp
  from m s show ?thesis by (simp add: positive_integer_def)
qed

text \<open>
  C1, as amended. Only \<^verbatim>\<open>set-interval\<close> with exactly one argument that \<^verbatim>\<open>int()\<close>
  accepts opens a file for writing before \<^verbatim>\<open>main\<close> exits, and what it stores as the
  interval is the integer \<^verbatim>\<open>int()\<close> returned, of any sign. Every such argument is
  stored. Without a configuration file, or with one that the decoder rejects, the
  constructed service has the interval 3600.
\<close>

theorem C1_stored_interval_is_an_integer:
  "(\<forall>c w'. main argv w = Exit c w' \<and> opened_for_writing w' \<noteq> opened_for_writing w \<longrightarrow>
      (\<exists>n. length argv = 3 \<and> argv ! 1 = ''set-interval'' \<and> py_int (argv ! 2) = Some n
         \<and> c = 0 \<and> stored_interval w' = Some (PyInt n)
         \<and> opened_for_writing w' = opened_for_writing w @ [Config_path]))
   \<and> (\<forall>n. py_int a = Some n \<longrightarrow>
         (\<exists>w'. main [prog, ''set-interval'', a] w = Exit 0 w'
            \<and> stored_interval w' = Some (PyInt n)))
   \<and> (config_file w = None
        \<or> (\<exists>content. config_file w = Some content
              \<and> json_loads (universal_newlines content) = None)
      \<longrightarrow> interval (fst (RunScriptService w)) = PyInt 3600)"
proof (intro conjI allI impI)
  fix c w'
  assume "main argv w = Exit c w' \<and> opened_for_writing w' \<noteq> opened_for_writing w"
  then show "\<exists>n. length argv = 3 \<and> argv ! 1 = ''set-interval'' \<and> py_int (argv ! 2) = Some n
         \<and> c = 0 \<and> stored_interval w' = Some (PyInt n)
         \<and> opened_for_writing w' = opened_for_writing w @ [Config_path]"
    using main_writes_only_by_set_interval by blast
next
  fix n
  assume n: "py_int a = Some n"
  from main_set_interval [OF n, of prog w] py_int_within_str_digits [OF n]
  show "\<exists>w'. main [prog, ''set-interval'', a] w = Exit 0 w' \<and> stored_interval w' = Some (PyInt n)"
    by (simp add: set_interval_def Let_def stored_interval_save)
next
  assume "config_file w = None
     \<or> (\<exists>content. config_file w = Some content \<and> json_loads (universal_newlines content) = None)"
  then show "interval (fst (RunScriptService w)) = PyInt 3600" by (rule default_interval)
qed

theorem C1_witness:
  "py_int ''-5'' = Some (- 5)
   \<and> (\<exists>w'. main [''run_script_service.py'', ''set-interval'', ''-5''] empty_world = Exit 0 w'
          \<and> stored_interval w' = Some (PyInt (- 5)))
   \<and> config_file empty_world = None
   \<and> interval (fst (RunScriptService empty_world)) = PyInt 3600
   \<and> config_file (empty_world\<lparr>config_file := Some ''{interval: 5}''\<rparr>) = Some ''{interval: 5}''
   \<and> json_loads (universal_newlines ''{interval: 5}'') = None
   \<and> interval (fst (RunScriptService (empty_world\<lparr>config_file := Some ''{interval: 5}''\<rparr>)))
       = PyInt 3600"
proof -
  have e: "config_file empty_world = None" by (simp add: empty_world_def)
  have b: "json_loads (universal_newlines ''{interval: 5}'') = None"
    by (simp add: json_loads_def skip_ws_def is_json_ws_def)
  have f: "config_file (empty_world\<lparr>config_file := Some ''{interval: 5}''\<rparr>) = Some ''{interval: 5}''"
    by simp
  from C1_stored_interval_is_an_integer
      [of "[''run_script_service.py'', ''set-interval'', ''-5'']" empty_world "''-5''"
          "''run_script_service.py''"]
    C1_stored_interval_is_an_integer
      [of "[]" "empty_world\<lparr>config_file := Some ''{interval: 5}''\<rparr>" "''-5''" "[]"]
    py_int_minus_five e b f
  show ?thesis by simp
qed

text \<open>
  C2. The claim: after every cycle, also one whose command could not be launched, the
  log has at most \<open>max_log_lines\<close> lines. The handler of \<^verbatim>\<open>execute_script\<close>
  appends its entry and does not call \<^verbatim>\<open>trim_log\<close>, which only the other path does:
  from a log of one hundred lines, a cycle whose launch raises leaves 102 lines.
\<close>

theorem C2_error_path_exceeds_limit:
  "max_log_lines (fst (RunScriptService empty_world)) = 100
   \<and> length (readlines hundred_lines) = 100
   \<and> (\<exists>content.
         log_file (execute_script (fst (RunScriptService empty_world))
            \<lparr>now_in_try = ''2024-01-01 00:00:00'', now_in_handler = ''2024-01-01 00:00:00'',
             subprocess_run = Raised ''[Errno 2] No such file or directory''\<rparr>
            (empty_world\<lparr>log_file := Some hundred_lines\<rparr>)) = Some content
         \<and> length (readlines content) = 102)"
proof -
  have m: "max_log_lines (fst (RunScriptService empty_world)) = 100"
    by (simp add: RunScriptService_def load_config_def empty_world_def)
  have n: "length (readlines hundred_lines) = 100"
    unfolding hundred_lines_def by code_simp
  have "length (readlines (hundred_lines @ ''[2024-01-01 00:00:00] ERROR: [Errno 2] No such file or directory\<newline>'' @ separator)) = 102"
    unfolding hundred_lines_def separator_def by code_simp
  then show ?thesis
    by (simp add: m n execute_script_def append_log_def print_def)
qed

text \<open>
  C3, as stated: for every positive integer \<open>N\<close>, \<^verbatim>\<open>set-interval\<close> with \<open>N\<close> as its
  argument, followed by a fresh load, yields the interval \<open>N\<close>. It fails for
  \<open>N = 10 ^ 4300\<close>, a numeral of 4301 digits: \<^verbatim>\<open>int()\<close> raises \<^verbatim>\<open>ValueError\<close> above
  4300 digits, \<^verbatim>\<open>main\<close> prints that the interval value is invalid and exits with
  status 1, nothing is written, and a service constructed afterwards has the
  default interval 3600.
\<close>

theorem C3_counterexample:
  "(0::int) < 10 ^ 4300
   \<and> nat_digits (10 ^ 4300) = CHR ''1'' # replicate 4300 CHR ''0''
   \<and> main [''run_script_service.py'', ''set-interval'', CHR ''1'' # replicate 4300 CHR ''0'']
        empty_world
      = Exit 1 (print Invalid_interval_value empty_world)
   \<and> config_file (print Invalid_interval_value empty_world) = None
   \<and> interval (fst (RunScriptService (print Invalid_interval_value empty_world))) = PyInt 3600"
proof (intro conjI)
  show "(0::int) < 10 ^ 4300" by (rule zero_less_power) simp
  show "nat_digits (10 ^ 4300) = CHR ''1'' # replicate 4300 CHR ''0''"
    by (rule nat_digits_power)
  have "main [''run_script_service.py'', ''set-interval'', CHR ''1'' # replicate 4300 CHR ''0'']
      empty_world
    = Exit 1 (print Invalid_interval_value (snd (RunScriptService empty_world)))"
    by (rule main_invalid_interval) (rule py_int_beyond_limit [unfolded int_max_str_digits_def])
  then show "main [''run_script_service.py'', ''set-interval'', CHR ''1'' # replicate 4300 CHR ''0'']
      empty_world
    = Exit 1 (print Invalid_interval_value empty_world)"
    by (simp only: constructor_empty_world snd_conv)
  show "config_file (print Invalid_interval_value empty_world) = None"
    by (simp add: print_def empty_world_def)
  show "interval (fst (RunScriptService (print Invalid_interval_value empty_world))) = PyInt 3600"
    by (simp add: RunScriptService_def load_config_def print_def empty_world_def)
qed

text \<open>
  C3, as amended. For every positive integer \<open>N\<close> below \<open>10 ^ 4300\<close>, that is, of
  at most 4300 decimal digits (the limit of \<^verbatim>\<open>int()\<close>), the command
  \<^verbatim>\<open>set-interval\<close> with the decimal numeral of \<open>N\<close> as its argument exits with
  status 0, and a service constructed afterwards (a fresh \<^verbatim>\<open>load_config\<close>) has the
  interval \<open>N\<close>.
\<close>

theorem C3_set_interval_then_load:
  assumes "0 < N" and "N < 10 ^ int_max_str_digits"
  shows "\<exists>w'. main [prog, ''set-interval'', py_str N] w = Exit 0 w'
           \<and> interval (fst (RunScriptService w')) = PyInt N"
proof -
  from assms have N: "within_str_digits N" by (simp add: within_str_digits_def)
  then have "py_int (py_str N) = Some N" by (rule py_int_py_str)
  from main_set_interval [OF this, of prog w] N
  show ?thesis
    by (simp add: set_interval_def Let_def RunScriptService_def print_def load_config_def
        save_config_def dumps_interval_no_CR json_loads_dumps_interval dict_get_def)
qed

theorem C3_witness:
  "(0::int) < 42 \<and> (42::int) < 10 ^ int_max_str_digits
   \<and> (\<exists>w'. main [''run_script_service.py'', ''set-interval'', ''42''] empty_world = Exit 0 w'
          \<and> interval (fst (RunScriptService w')) = PyInt 42)"
proof -
  have s: "py_str 42 = ''42''"
    by (simp add: py_str_def nat_digits.simps digit_char_def char_of_eq_iff)
  have "within_str_digits 42" by (rule small_within_str_digits) simp
  then have l: "(42::int) < 10 ^ int_max_str_digits" by (simp add: within_str_digits_def)
  with C3_set_interval_then_load [of 42 "''run_script_service.py''" empty_world] s
  show ?thesis by simp
qed

text \<open>
  C4. When the log has more lines than \<open>max_log_lines\<close>, \<^verbatim>\<open>trim_log\<close> leaves a file
  that has exactly \<open>max_log_lines\<close> lines, and they are the last \<open>max_log_lines\<close>
  lines of the content before, whatever entries they belong to. The constructor sets
  \<open>max_log_lines\<close> to 100 and nothing assigns it again; the statement holds for every
  positive bound.
\<close>

theorem C4_trim_keeps_tail:
  assumes "log_file w = Some content"
    and "max_log_lines self < int (length (readlines content))"
    and "0 < max_log_lines self"
  shows "\<exists>content'. log_file (trim_log self w) = Some content'
     \<and> int (length (readlines content')) = max_log_lines self
     \<and> readlines content'
         = drop (length (readlines content) - nat (max_log_lines self)) (readlines content)"
  using assms by (rule trim_log_exceeding)

theorem C4_witness:
  "log_file (empty_world\<lparr>log_file := Some long_log\<rparr>) = Some long_log
   \<and> max_log_lines (fst (RunScriptService empty_world)) < int (length (readlines long_log))
   \<and> 0 < max_log_lines (fst (RunScriptService empty_world))
   \<and> (\<exists>content'.
         log_file (trim_log (fst (RunScriptService empty_world))
                     (empty_world\<lparr>log_file := Some long_log\<rparr>)) = Some content'
         \<and> int (length (readlines content')) = 100
         \<and> readlines content' = drop 1 (readlines long_log))"
proof -
  let ?w = "empty_world\<lparr>log_file := Some long_log\<rparr>"
  let ?self = "fst (RunScriptService empty_world)"
  have m: "max_log_lines ?self = 100"
    by (simp add: RunScriptService_def load_config_def empty_world_def)
  have n: "length (readlines long_log) = 101"
    unfolding long_log_def hundred_lines_def by code_simp
  have 1: "log_file ?w = Some long_log" by simp
  have 2: "max_log_lines ?self < int (length (readlines long_log))"
    by (simp add: m n)
  have 3: "0 < max_log_lines ?self" by (simp add: m)
  from C4_trim_keeps_tail [OF 1 2 3] 1 2 3 show ?thesis by (simp add: m n)
qed

text \<open>
  C5. Every invalid invocation exits with status 1 and prints its message (after
  whatever the constructor printed while loading the configuration); the configuration
  file and the log are as before, and no file was opened for writing.
\<close>

theorem C5_invalid_invocation:
  assumes "invalid_invocation argv"
  shows "\<exists>w'. main argv w = Exit 1 w'
     \<and> console w' = console (snd (RunScriptService w)) @ [complaint argv]
     \<and> config_file w' = config_file w
     \<and> log_file w' = log_file w
     \<and> opened_for_writing w' = opened_for_writing w"
proof -
  from assms have "main argv w = Exit 1 (print (complaint argv) (snd (RunScriptService w)))"
    by (auto simp: invalid_invocation_def complaint_def main_def split: prod.splits if_splits)
  then show ?thesis by (simp add: print_def constructor_keeps_files)
qed

theorem C5_witness:
  "invalid_invocation [''run_script_service.py'', ''set-interval'']
   \<and> invalid_invocation [''run_script_service.py'', ''set-interval'', ''60'', ''61'']
   \<and> invalid_invocation [''run_script_service.py'', ''set-interval'', ''abc'']
   \<and> invalid_invocation [''run_script_service.py'', ''status'']
   \<and> (\<exists>w'. main [''run_script_service.py'', ''set-interval'', ''abc''] empty_world = Exit 1 w'
          \<and> console w' = [Invalid_interval_value]
          \<and> config_file w' = None \<and> log_file w' = None \<and> opened_for_writing w' = [])"
proof -
  have abc: "py_int ''abc'' = None"
    by (simp add: py_int_def int_strip_def int_isspace_def is_digit_def)
  have i: "invalid_invocation [''run_script_service.py'', ''set-interval'', ''abc'']"
    by (simp add: invalid_invocation_def abc)
  have c: "console (snd (RunScriptService empty_world)) = []"
    by (simp add: RunScriptService_def load_config_def empty_world_def)
  from C5_invalid_invocation [OF i, of empty_world] i c show ?thesis
    by (simp add: invalid_invocation_def complaint_def empty_world_def)
qed

text \<open>
  C6. When \<^verbatim>\<open>subprocess.run\<close> raises, the step of the loop that calls
  \<^verbatim>\<open>execute_script\<close> appends the time stamp of the handler, \<^verbatim>\<open>ERROR:\<close>, the
  message and the separator to the log, prints, and goes on to the test of the wait
  loop with the same service: nothing is raised out of it.
\<close>

theorem C6_launch_failure_is_logged:
  assumes "subprocess_run x = Raised e" and "control m = Execute"
  shows "control (step less_float (Proceed x) m) = Inner_test
     \<and> svc (step less_float (Proceed x) m) = svc m
     \<and> log_file (env (step less_float (Proceed x) m))
         = Some ((case log_file (env m) of None \<Rightarrow> [] | Some old \<Rightarrow> old)
                 @ ''['' @ now_in_handler x @ ''] ERROR: '' @ e @ ''\<newline>''
                 @ replicate 50 CHR ''-'' @ ''\<newline>'')
     \<and> console (env (step less_float (Proceed x) m))
         = console (env m) @ [Error_executing_script e]"
  using assms
  by (simp add: step_def halted_def execute_script_def append_log_def print_def separator_def)

theorem C6_witness:
  "subprocess_run launch_failed = Raised ''[Errno 2] No such file or directory''
   \<and> control (waiting_machine\<lparr>control := Execute\<rparr>) = Execute
   \<and> control (step (\<lambda>a t. False) (Proceed launch_failed)
                (waiting_machine\<lparr>control := Execute\<rparr>)) = Inner_test
   \<and> log_file (env (step (\<lambda>a t. False) (Proceed launch_failed)
                (waiting_machine\<lparr>control := Execute\<rparr>)))
       = Some (''[2024-01-01 00:00:01] ERROR: [Errno 2] No such file or directory\<newline>''
               @ ''--------------------------------------------------\<newline>'')"
proof -
  have 1: "subprocess_run launch_failed = Raised ''[Errno 2] No such file or directory''"
    by (simp add: launch_failed_def)
  have 2: "control (waiting_machine\<lparr>control := Execute\<rparr>) = Execute" by simp
  have l: "log_file (env waiting_machine) = None"
    by (simp add: waiting_machine_def empty_world_def)
  have h: "now_in_handler launch_failed = ''2024-01-01 00:00:01''"
    by (simp add: launch_failed_def)
  have r: "replicate 50 CHR ''-'' = ''--------------------------------------------------''"
    by code_simp
  from C6_launch_failure_is_logged [OF 1 2, of "\<lambda>a t. False"] 1 2 show ?thesis
    by (simp add: l r h)
qed

text \<open>
  C7. For a completed run, with any exit code, \<^verbatim>\<open>execute_script\<close> appends exactly the
  lines of \<open>entry_lines\<close> (and then trims and prints): the first line holds the time
  stamp and the exit code, the line of the standard output is there if and only if the
  output is not empty, likewise the line of the standard error, and the last line is
  fifty dashes.
\<close>

theorem C7_entry_of_a_completed_run:
  assumes "subprocess_run x = Completed returncode out err"
  shows "execute_script self x w
       = print (Script_executed (now_in_try x) returncode)
           (trim_log self (append_log (concat (entry_lines (now_in_try x) returncode out err)) w))
     \<and> hd (entry_lines (now_in_try x) returncode out err)
         = ''['' @ now_in_try x @ ''] Exit code: '' @ py_str returncode @ ''\<newline>''
     \<and> ((''STDOUT: '' @ py_strip out @ ''\<newline>'')
            \<in> set (entry_lines (now_in_try x) returncode out err) \<longleftrightarrow> out \<noteq> [])
     \<and> ((''STDERR: '' @ py_strip err @ ''\<newline>'')
            \<in> set (entry_lines (now_in_try x) returncode out err) \<longleftrightarrow> err \<noteq> [])
     \<and> last (entry_lines (now_in_try x) returncode out err) = replicate 50 CHR ''-'' @ ''\<newline>''"
proof -
  from assms have "execute_script self x w
       = print (Script_executed (now_in_try x) returncode)
           (trim_log self (append_log (concat (entry_lines (now_in_try x) returncode out err)) w))"
    by (simp add: execute_script_def entry_lines_def separator_def Let_def)
  then show ?thesis by (simp only: entry_lines_shape simp_thms)
qed

theorem C7_witness:
  "subprocess_run said_hello = Completed 0 ''hello\<newline>'' []
   \<and> log_file (execute_script (fst (RunScriptService empty_world)) said_hello empty_world)
       = Some (''[2024-01-01 00:00:00] Exit code: 0\<newline>'' @ ''STDOUT: hello\<newline>''
               @ ''--------------------------------------------------\<newline>'')"
proof -
  let ?self = "fst (RunScriptService empty_world)"
  define entry where "entry = ''[2024-01-01 00:00:00] Exit code: 0\<newline>'' @ ''STDOUT: hello\<newline>''
               @ ''--------------------------------------------------\<newline>''"
  have 1: "subprocess_run said_hello = Completed 0 ''hello\<newline>'' []"
    by (simp add: said_hello_def)
  have ts: "now_in_try said_hello = ''2024-01-01 00:00:00''" by (simp add: said_hello_def)
  have m: "max_log_lines ?self = 100"
    by (simp add: RunScriptService_def load_config_def empty_world_def)
  have s: "py_strip ''hello\<newline>'' = ''hello''"
    by (simp add: py_strip_def py_isspace_def)
  have z: "py_str 0 = ''0''"
    by (simp add: py_str_def nat_digits.simps digit_char_def char_of_eq_iff)
  have r: "replicate 50 CHR ''-'' = ''--------------------------------------------------''"
    by code_simp
  have e: "concat (entry_lines ''2024-01-01 00:00:00'' 0 ''hello\<newline>'' []) = entry"
    by (simp add: entry_lines_def s z r entry_def)
  have n: "length (readlines entry) = 3" unfolding entry_def by code_simp
  have l: "log_file empty_world = None" by (simp add: empty_world_def)
  have t: "trim_log ?self (append_log entry empty_world) = append_log entry empty_world"
    by (simp add: trim_log_def append_log_def l m n)
  from C7_entry_of_a_completed_run [OF 1, of ?self empty_world]
  have "execute_script ?self said_hello empty_world
      = print (Script_executed ''2024-01-01 00:00:00'' 0) (append_log entry empty_world)"
    by (simp only: ts e t)
  then have "log_file (execute_script ?self said_hello empty_world) = Some entry"
    by (simp add: print_def append_log_def l)
  with 1 show ?thesis by (simp add: entry_def)
qed

text \<open>
  C8. From every control point of the wait: a signal ends the process at once with
  status 0, the flag cleared and no further sleep. And the flag alone is enough: if it
  is false during the wait, however it was cleared, at most one more
  \<^verbatim>\<open>time.sleep(1)\<close> is done whatever events follow, and after four events at the latest
  the loop has ended. While the flag is set, one round of the wait loop is one test of
  the flag and one sleep of one second.
\<close>

theorem C8_shutdown_within_one_sleep:
  assumes "waiting (control m)"
  shows "run_events less_float (Signal signum # evs) m = signal_handler signum m
     \<and> control (signal_handler signum m) = Exited 0
     \<and> \<not> running (svc (signal_handler signum m))
     \<and> sleeps (signal_handler signum m) = sleeps m
     \<and> (\<not> running (svc m) \<longrightarrow>
          sleeps (run_events less_float evs m) \<le> Suc (sleeps m)
          \<and> (4 \<le> length evs \<longrightarrow> halted (control (run_events less_float evs m))))
     \<and> (control m = Inner_test \<and> running (svc m)
          \<and> int_less less_float (elapsed m) (interval (svc m)) = Inr True \<longrightarrow>
          run_events less_float [Proceed x1, Proceed x2, Proceed x3] m
            = m\<lparr>elapsed := elapsed m + 1, sleeps := Suc (sleeps m)\<rparr>)"
proof -
  from assms have nh: "\<not> halted (control m)" by (rule waiting_not_halted)
  have 1: "run_events less_float (Signal signum # evs) m = signal_handler signum m"
    using nh by (simp add: step_signal run_events_halted halted_signal)
  have 2: "control (signal_handler signum m) = Exited 0"
    "\<not> running (svc (signal_handler signum m))"
    "sleeps (signal_handler signum m) = sleeps m"
    by (simp_all add: signal_handler_def stop_def)
  have 3: "sleeps (run_events less_float evs m) \<le> Suc (sleeps m)
     \<and> (4 \<le> length evs \<longrightarrow> halted (control (run_events less_float evs m)))"
    if stopped: "\<not> running (svc m)"
  proof -
    from assms consider "control m = Inner_test" | "control m = Sleep" | "control m = Increment"
      by (auto simp: waiting_def)
    then show ?thesis
    proof cases
      case 1
      from stopped_inner [OF 1 stopped, where lf = less_float and evs = evs] show ?thesis by simp
    next
      case 2
      from stopped_sleep [OF 2 stopped, where lf = less_float and evs = evs] show ?thesis by simp
    next
      case 3
      from stopped_increment [OF 3 stopped, where lf = less_float and evs = evs] show ?thesis by simp
    qed
  qed
  from 1 2 3 one_poll_per_sleep [where m = m and lf = less_float and ?x1.0 = x1 and ?x2.0 = x2 and ?x3.0 = x3] show ?thesis by blast
qed


theorem C8_witness:
  "waiting (control waiting_machine)
   \<and> run_events (\<lambda>a t. False) [Signal 15, Proceed said_hello, Proceed said_hello] waiting_machine
       = signal_handler 15 waiting_machine
   \<and> control (signal_handler 15 waiting_machine) = Exited 0
   \<and> sleeps (signal_handler 15 waiting_machine) = 7
   \<and> waiting (control (stop waiting_machine))
   \<and> \<not> running (svc (stop waiting_machine))
   \<and> sleeps (run_events (\<lambda>a t. False)
         [Proceed said_hello, Proceed said_hello, Proceed said_hello, Proceed said_hello]
         (stop waiting_machine)) \<le> 8
   \<and> halted (control (run_events (\<lambda>a t. False)
         [Proceed said_hello, Proceed said_hello, Proceed said_hello, Proceed said_hello]
         (stop waiting_machine)))"
proof -
  have w: "waiting (control waiting_machine)" "waiting (control (stop waiting_machine))"
    by (simp_all add: waiting_def waiting_machine_def stop_def)
  have s: "sleeps waiting_machine = 7" "sleeps (stop waiting_machine) = 7"
    "\<not> running (svc (stop waiting_machine))"
    by (simp_all add: waiting_machine_def stop_def)
  from C8_shutdown_within_one_sleep [OF w(1), of "\<lambda>a t. False" 15 "[Proceed said_hello, Proceed said_hello]"]
    C8_shutdown_within_one_sleep [OF w(2), of "\<lambda>a t. False" 15
      "[Proceed said_hello, Proceed said_hello, Proceed said_hello, Proceed said_hello]"]
    w s
  show ?thesis by simp
qed

text \<open>
  C9. With no argument, \<^verbatim>\<open>main\<close> does what it does with the one argument
  \<^verbatim>\<open>run\<close>: it enters the service loop with the service the constructor loaded.
\<close>

theorem C9_no_arguments_is_run:
  "main [prog] w = main [prog, ''run''] w
   \<and> main [prog] w = Service_loop (run (fst (RunScriptService w)) (snd (RunScriptService w)))"
  by (simp add: main_def split: prod.splits)

text \<open>
  C10. \<^verbatim>\<open>trim_log\<close> changes nothing outside its trigger: without a log file the world
  is the same afterwards (no file appears, nothing is opened for writing), and so it is
  for a log of at most \<open>max_log_lines\<close> lines.
\<close>

theorem C10_trim_is_noop:
  "(log_file w = None \<longrightarrow> trim_log self w = w)
   \<and> (\<forall>content. log_file w = Some content
          \<and> int (length (readlines content)) \<le> max_log_lines self
        \<longrightarrow> trim_log self w = w)"
  by (simp add: trim_log_def Let_def)

theorem C10_witness:
  "log_file empty_world = None
   \<and> trim_log (fst (RunScriptService empty_world)) empty_world = empty_world
   \<and> log_file (empty_world\<lparr>log_file := Some hundred_lines\<rparr>) = Some hundred_lines
   \<and> int (length (readlines hundred_lines)) \<le> max_log_lines (fst (RunScriptService empty_world))
   \<and> trim_log (fst (RunScriptService empty_world)) (empty_world\<lparr>log_file := Some hundred_lines\<rparr>)
       = empty_world\<lparr>log_file := Some hundred_lines\<rparr>"
proof -
  let ?self = "fst (RunScriptService empty_world)"
  have m: "max_log_lines ?self = 100"
    by (simp add: RunScriptService_def load_config_def empty_world_def)
  have n: "length (readlines hundred_lines) = 100"
    unfolding hundred_lines_def by code_simp
  have e: "log_file empty_world = None" by (simp add: empty_world_def)
  from C10_trim_is_noop [of empty_world ?self]
    C10_trim_is_noop [of "empty_world\<lparr>log_file := Some hundred_lines\<rparr>" ?self]
  show ?thesis by (simp add: m n e)
qed

section \<open>Further properties\<close>

text \<open>
  X1. On the path of a completed run the bound of C2 does hold: after
  \<^verbatim>\<open>execute_script\<close> the log has at most \<open>max_log_lines\<close> lines.
\<close>

theorem X1_success_path_is_bounded:
  assumes "subprocess_run x = Completed returncode out err" and "0 < max_log_lines self"
  shows "\<exists>content. log_file (execute_script self x w) = Some content
     \<and> int (length (readlines content)) \<le> max_log_lines self"
proof -
  define entry where "entry = concat (entry_lines (now_in_try x) returncode out err)"
  define w1 where "w1 = append_log entry w"
  obtain c where c: "log_file w1 = Some c" by (simp add: w1_def append_log_def)
  from assms(1) have e: "execute_script self x w
      = print (Script_executed (now_in_try x) returncode) (trim_log self w1)"
    by (simp add: execute_script_def entry_lines_def separator_def Let_def entry_def w1_def)
  have "\<exists>content. log_file (trim_log self w1) = Some content
     \<and> int (length (readlines content)) \<le> max_log_lines self"
  proof (cases "max_log_lines self < int (length (readlines c))")
    case True
    from trim_log_exceeding [OF c True assms(2)] show ?thesis by auto
  next
    case False
    with c have "trim_log self w1 = w1" by (simp add: trim_log_noop_within)
    with c False show ?thesis by simp
  qed
  with e show ?thesis by (simp add: print_def)
qed

theorem X1_witness:
  "subprocess_run said_hello = Completed 0 ''hello\<newline>'' []
   \<and> 0 < max_log_lines (fst (RunScriptService empty_world))
   \<and> (\<exists>content.
         log_file (execute_script (fst (RunScriptService empty_world)) said_hello
                     (empty_world\<lparr>log_file := Some hundred_lines\<rparr>)) = Some content
         \<and> int (length (readlines content)) \<le> 100)"
proof -
  have 1: "subprocess_run said_hello = Completed 0 ''hello\<newline>'' []"
    by (simp add: said_hello_def)
  have m: "max_log_lines (fst (RunScriptService empty_world)) = 100"
    by (simp add: constructor_empty_world)
  then have 2: "0 < max_log_lines (fst (RunScriptService empty_world))" by simp
  from X1_success_path_is_bounded [OF 1 2, of "empty_world\<lparr>log_file := Some hundred_lines\<rparr>"]
    1 2 m show ?thesis by simp
qed

text \<open>
  X2. The service loop never changes the configuration file, whatever events arrive.
\<close>

theorem X2_loop_never_writes_configuration:
  "config_file (env (run_events less_float evs m)) = config_file (env m)"
  by (induction evs arbitrary: m) (simp_all add: step_keeps_config)

end
